theory Spec2Isabelle
  imports Main "HOL-Library.Sublist"
begin

section \<open>Python strings\<close>

text \<open>
  Text is a list of characters, one \<^typ>\<open>char\<close> per code point, which takes in the code
  points up to U+00FF. On these the classes below are those of Python 3 for \<^verbatim>\<open>str\<close>:
  \<^verbatim>\<open>str.lower\<close>, \<^verbatim>\<open>str.isspace\<close> (which \<^verbatim>\<open>str.strip\<close> and \<^verbatim>\<open>\s\<close> follow) and
  \<^verbatim>\<open>\w\<close>. A text with a code point above U+00FF is not a value of the model.
\<close>

abbreviation nl :: char where
  "nl \<equiv> CHR 0x0A"

text \<open>The letters that \<^verbatim>\<open>str.lower\<close> changes: A to Z, and U+00C0 to U+00DE without U+00D7.\<close>

definition is_upper :: "char \<Rightarrow> bool" where
  "is_upper c = (let n = (of_char c :: nat) in
     (65 \<le> n \<and> n \<le> 90) \<or> (192 \<le> n \<and> n \<le> 214) \<or> (216 \<le> n \<and> n \<le> 222))"

definition lower_char :: "char \<Rightarrow> char" where
  "lower_char c = (if is_upper c then char_of ((of_char c :: nat) + 32) else c)"

definition lower :: "string \<Rightarrow> string" where
  "lower s = map lower_char s"

text \<open>
  White space: 9 to 13, 28 to 32, the next-line character U+0085 and the no-break space
  U+00A0.
\<close>

definition is_space :: "char \<Rightarrow> bool" where
  "is_space c = (let n = (of_char c :: nat) in
     (9 \<le> n \<and> n \<le> 13) \<or> (28 \<le> n \<and> n \<le> 32) \<or> n = 133 \<or> n = 160)"

text \<open>
  \<^verbatim>\<open>\w\<close>: the underscore and what \<^verbatim>\<open>str.isalnum\<close> takes, that is the digits and
  letters of ASCII and, above it, U+00AA, U+00B2, U+00B3, U+00B5, U+00B9, U+00BA, U+00BC to
  U+00BE and the letters U+00C0 to U+00FF without the signs U+00D7 and U+00F7.
\<close>

definition is_word :: "char \<Rightarrow> bool" where
  "is_word c = (let n = (of_char c :: nat) in
     (48 \<le> n \<and> n \<le> 57) \<or> (65 \<le> n \<and> n \<le> 90) \<or> n = 95 \<or> (97 \<le> n \<and> n \<le> 122) \<or>
     n = 170 \<or> n = 178 \<or> n = 179 \<or> n = 181 \<or> n = 185 \<or> n = 186 \<or>
     (188 \<le> n \<and> n \<le> 190) \<or> (192 \<le> n \<and> n \<le> 214) \<or> (216 \<le> n \<and> n \<le> 246) \<or>
     (248 \<le> n \<and> n \<le> 255))"

text \<open>\<^verbatim>\<open>s.strip()\<close>\<close>

definition strip :: "string \<Rightarrow> string" where
  "strip s = rev (dropWhile is_space (rev (dropWhile is_space s)))"

text \<open>\<^verbatim>\<open>sub in s\<close>: \<open>sub\<close> occurs in \<open>s\<close> as a contiguous block.\<close>

fun contains :: "string \<Rightarrow> string \<Rightarrow> bool" where
  "contains [] sub = (sub = [])"
| "contains (c # cs) sub = (prefix sub (c # cs) \<or> contains cs sub)"

text \<open>
  \<^verbatim>\<open>s.split(sep)\<close> for a non-empty separator: the pieces between the occurrences of
  \<open>sep\<close>, found from left to right without overlap. \<open>skip\<close> counts the characters of a
  separator just found that are still to be passed over, \<open>cur\<close> is the piece being read,
  reversed. (Python raises ValueError on an empty separator; every call in the program
  passes a literal of one character or more.)
\<close>

fun split_from :: "string \<Rightarrow> nat \<Rightarrow> string \<Rightarrow> string \<Rightarrow> string list" where
  "split_from sep skip cur [] = [rev cur]"
| "split_from sep skip cur (c # cs) =
     (if 0 < skip then split_from sep (skip - 1) cur cs
      else if prefix sep (c # cs) then rev cur # split_from sep (length sep - 1) [] cs
      else split_from sep 0 (c # cur) cs)"

definition split :: "string \<Rightarrow> string \<Rightarrow> string list" where
  "split s sep = split_from sep 0 [] s"

section \<open>Regular expressions\<close>

text \<open>
  The part of Python's \<^verbatim>\<open>re\<close> that the program uses, as a backtracking matcher. Both
  patterns are compiled with \<^verbatim>\<open>re.IGNORECASE | re.DOTALL\<close>: a literal is compared
  without regard to case, and the dot stands for any character. Quantifiers range over
  one class of characters, which is all the two patterns need.
\<close>

definition ci_prefix :: "string \<Rightarrow> string \<Rightarrow> bool" where
  "ci_prefix kw s = prefix (lower kw) (lower s)"

datatype rx =
    Lit string
  | Opt rx
  | Star "char \<Rightarrow> bool"
  | Plus "char \<Rightarrow> bool"
  | Lazy "char \<Rightarrow> bool"
  | Seq rx rx
  | Alt rx rx
  | Group rx
  | Ahead rx
  | Dollar

text \<open>
  The ways a pattern matches at the head of a text, in the order in which the engine
  tries them: a greedy quantifier takes the longest run first, a lazy one the shortest,
  an alternative its left branch, and a sequence goes through the ways of its second
  part for each way of its first. A way is the texts of the groups it closed (in the
  order of their opening parentheses), the text it consumed and the text it left. A
  lookahead consumes nothing (the two patterns have no group inside one). \<open>Dollar\<close> is
  \<^verbatim>\<open>$\<close> without MULTILINE: the end of the text, or just before a last newline.
\<close>

primrec ways :: "rx \<Rightarrow> string \<Rightarrow> (string list \<times> string \<times> string) list" where
  "ways (Lit k) s =
     (if ci_prefix k s then [([], take (length k) s, drop (length k) s)] else [])"
| "ways (Opt r) s = ways r s @ [([], [], s)]"
| "ways (Star P) s =
     map (\<lambda>n. ([], take n s, drop n s)) (rev [0..<Suc (length (takeWhile P s))])"
| "ways (Plus P) s =
     map (\<lambda>n. ([], take n s, drop n s)) (rev [1..<Suc (length (takeWhile P s))])"
| "ways (Lazy P) s =
     map (\<lambda>n. ([], take n s, drop n s)) [0..<Suc (length (takeWhile P s))]"
| "ways (Seq a b) s =
     concat (map (\<lambda>(g, x, t). map (\<lambda>(h, y, u). (g @ h, x @ y, u)) (ways b t)) (ways a s))"
| "ways (Alt a b) s = ways a s @ ways b s"
| "ways (Group r) s = map (\<lambda>(g, x, t). (x # g, x, t)) (ways r s)"
| "ways (Ahead r) s = (if ways r s = [] then [] else [([], [], s)])"
| "ways Dollar s = (if s = [] \<or> s = [nl] then [([], [], s)] else [])"

definition first_way :: "rx \<Rightarrow> string \<Rightarrow> (string list \<times> string \<times> string) option" where
  "first_way r s = (case ways r s of [] \<Rightarrow> None | w # _ \<Rightarrow> Some w)"

text \<open>The match at one position is the first way; its value here is the list of its groups.\<close>

definition match_at :: "rx \<Rightarrow> string \<Rightarrow> string list option" where
  "match_at r s = map_option fst (first_way r s)"

text \<open>\<^verbatim>\<open>re.search\<close>: the match at the first position that has one, the end of the text included.\<close>

fun re_search :: "rx \<Rightarrow> string \<Rightarrow> string list option" where
  "re_search r [] = match_at r []"
| "re_search r (c # cs) =
     (case match_at r (c # cs) of
        Some g \<Rightarrow> Some g
      | None \<Rightarrow> re_search r cs)"

text \<open>\<^verbatim>\<open>m.group(n)\<close> for \<open>n\<close> from 1.\<close>

definition group :: "string list \<Rightarrow> nat \<Rightarrow> string" where
  "group m n = m ! (n - 1)"

definition any_char :: "char \<Rightarrow> bool" where
  "any_char c = True"

text \<open>\<^verbatim>\<open>(?=\n\w+:|$)\<close>\<close>

definition section_ahead :: rx where
  "section_ahead = Ahead (Alt (Seq (Lit [nl]) (Seq (Plus is_word) (Lit '':''))) Dollar)"

text \<open>\<^verbatim>\<open>(summary|objective):?\s*(.*?)(?=\n\w+:|$)\<close>\<close>

definition summary_pattern :: rx where
  "summary_pattern =
     Seq (Group (Alt (Lit ''summary'') (Lit ''objective'')))
       (Seq (Opt (Lit '':''))
          (Seq (Star is_space)
             (Seq (Group (Lazy any_char)) section_ahead)))"

text \<open>\<^verbatim>\<open>(education):?(.*?)(?=\n\w+:|$)\<close>\<close>

definition education_pattern :: rx where
  "education_pattern =
     Seq (Group (Lit ''education''))
       (Seq (Opt (Lit '':''))
          (Seq (Group (Lazy any_char)) section_ahead))"

section \<open>Field extractors on the raw text\<close>

definition extract_summary :: "string \<Rightarrow> string" where
  "extract_summary text =
     (case re_search summary_pattern text of
        Some m \<Rightarrow> strip (group m 2)
      | None \<Rightarrow> [])"

definition extract_education :: "string \<Rightarrow> string list" where
  "extract_education text =
     (case re_search education_pattern text of
        Some m \<Rightarrow> map strip (filter (\<lambda>line. strip line \<noteq> []) (split (group m 2) [nl]))
      | None \<Rightarrow> [])"

section \<open>The two patterns as scans\<close>

text \<open>
  What the two searches come to, written as one pass over the text; the properties
  below prove that the matcher above returns just this. After the keyword the lookahead
  holds at the end of the text at the latest, so the lazy group always finds its end and
  the greedy parts before it are never given back: a position matches as soon as the
  keyword is read there.
\<close>

text \<open>\<^verbatim>\<open>\n\w+:\<close> read at the head of \<open>s\<close>.\<close>

definition label_ahead :: "string \<Rightarrow> bool" where
  "label_ahead s =
     (case s of
        [] \<Rightarrow> False
      | c # r \<Rightarrow> c = nl \<and> takeWhile is_word r \<noteq> [] \<and>
                 (case dropWhile is_word r of [] \<Rightarrow> False | d # _ \<Rightarrow> d = CHR '':''))"

text \<open>\<^verbatim>\<open>$\<close> without MULTILINE: the end of the text, or just before a last newline.\<close>

definition at_dollar :: "string \<Rightarrow> bool" where
  "at_dollar s = (s = [] \<or> s = [nl])"

definition section_end :: "string \<Rightarrow> bool" where
  "section_end s = (label_ahead s \<or> at_dollar s)"

text \<open>\<^verbatim>\<open>(.*?)(?=\n\w+:|$)\<close>: the text up to the first position where the lookahead holds.\<close>

fun lazy_capture :: "string \<Rightarrow> string" where
  "lazy_capture [] = []"
| "lazy_capture (c # cs) = (if section_end (c # cs) then [] else c # lazy_capture cs)"

text \<open>\<^verbatim>\<open>:?\<close>\<close>

definition skip_colon :: "string \<Rightarrow> string" where
  "skip_colon s = (case s of [] \<Rightarrow> [] | c # r \<Rightarrow> if c = CHR '':'' then r else c # r)"

text \<open>The summary pattern tried at the head of \<open>s\<close>: group 2 of the match there.\<close>

definition summary_match_here :: "string \<Rightarrow> string option" where
  "summary_match_here s =
     (if ci_prefix ''summary'' s
        then Some (lazy_capture (dropWhile is_space (skip_colon (drop 7 s))))
      else if ci_prefix ''objective'' s
        then Some (lazy_capture (dropWhile is_space (skip_colon (drop 9 s))))
      else None)"

fun summary_search :: "string \<Rightarrow> string option" where
  "summary_search [] = None"
| "summary_search (c # cs) =
     (case summary_match_here (c # cs) of
        Some g \<Rightarrow> Some g
      | None \<Rightarrow> summary_search cs)"

definition education_match_here :: "string \<Rightarrow> string option" where
  "education_match_here s =
     (if ci_prefix ''education'' s
        then Some (lazy_capture (skip_colon (drop 9 s)))
      else None)"

fun education_search :: "string \<Rightarrow> string option" where
  "education_search [] = None"
| "education_search (c # cs) =
     (case education_match_here (c # cs) of
        Some g \<Rightarrow> Some g
      | None \<Rightarrow> education_search cs)"

section \<open>The annotated document\<close>

text \<open>
  What the language pipeline hands to the extractors: the entities (text, label and the
  dependency label of the root token), the sentences with their own entities, the texts
  of the noun phrases and the tokens.
\<close>

record entity =
  ent_text :: string
  ent_label :: string
  ent_root_dep :: string

record token =
  tok_text :: string
  tok_pos :: string
  tok_lemma :: string

record sentence =
  sent_text :: string
  sent_ents :: "entity list"

record doc =
  ents :: "entity list"
  sents :: "sentence list"
  noun_chunks :: "string list"
  tokens :: "token list"

text \<open>
  Exceptions (the subclasses of \<^verbatim>\<open>Exception\<close>), each with the message that
  \<^verbatim>\<open>str(e)\<close> gives; \<open>Raised\<close> stands for what a library or the operating system
  raises.
\<close>

datatype py_error = TypeError string | IndexError string | Raised string

fun str_of_error :: "py_error \<Rightarrow> string" where
  "str_of_error (TypeError m) = m"
| "str_of_error (IndexError m) = m"
| "str_of_error (Raised m) = m"

text \<open>
  \<^verbatim>\<open>list(set(xs))\<close>: the distinct elements of \<open>xs\<close>. Python leaves the order of the
  result open; the model lists them in the order of their last occurrence, and the
  theorems below speak of the elements and of their distinctness only, or of lists of
  one element.
\<close>

definition list_of_set :: "string list \<Rightarrow> string list" where
  "list_of_set xs = remdups xs"

section \<open>Experience\<close>

text \<open>
  A parsed date is a \<^verbatim>\<open>datetime\<close>, in microseconds. A naive one is its wall clock. An
  aware one is its \<^verbatim>\<open>tzinfo\<close> object (which one it is), its wall clock and its offset
  from UTC; a date whose \<^verbatim>\<open>tzinfo\<close> gives no offset counts as naive, as it does in
  Python. The date parser is a library function: it returns a date, returns
  \<^verbatim>\<open>None\<close>, or raises.
\<close>

datatype date = Naive int | Aware nat int int

datatype parse_result = Raises | Returns "date option"

fun collect_dates :: "(string \<Rightarrow> parse_result) \<Rightarrow> entity list \<Rightarrow> date option list" where
  "collect_dates dp [] = []"
| "collect_dates dp (e # es) =
     (if ent_label e = ''DATE'' \<and> 4 < length (ent_text e)
      then (case dp (ent_text e) of
              Returns d \<Rightarrow> d # collect_dates dp es
            | Raises \<Rightarrow> collect_dates dp es)
      else collect_dates dp es)"

text \<open>\<^verbatim>\<open>if d\<close>: a date is true, \<^verbatim>\<open>None\<close> is false.\<close>

definition truthy_date :: "date option \<Rightarrow> bool" where
  "truthy_date d = (d \<noteq> None)"

text \<open>The name of the type of a value, and a text between single quotes, as error messages have them.\<close>

definition type_name :: "date option \<Rightarrow> string" where
  "type_name d = (case d of None \<Rightarrow> ''NoneType'' | Some t \<Rightarrow> ''datetime.datetime'')"

definition quoted :: "string \<Rightarrow> string" where
  "quoted s = [CHR 0x27] @ s @ [CHR 0x27]"

text \<open>
  \<^verbatim>\<open>a < b\<close>. Two naive dates compare by their wall clocks. Two aware dates with the same
  \<^verbatim>\<open>tzinfo\<close> object compare by their wall clocks too, and by their UTC times otherwise.
  A naive date against an aware one raises TypeError, and so does \<^verbatim>\<open>None\<close> against
  anything.
\<close>

fun py_lt :: "date option \<Rightarrow> date option \<Rightarrow> py_error + bool" where
  "py_lt (Some (Naive x)) (Some (Naive y)) = Inr (x < y)"
| "py_lt (Some (Aware z w off)) (Some (Aware z' w' off')) =
     Inr (if z = z' then w < w' else w - off < w' - off')"
| "py_lt (Some (Naive x)) (Some (Aware z' w' off')) =
     Inl (TypeError ''can't compare offset-naive and offset-aware datetimes'')"
| "py_lt (Some (Aware z w off)) (Some (Naive y)) =
     Inl (TypeError ''can't compare offset-naive and offset-aware datetimes'')"
| "py_lt a b =
     Inl (TypeError (quoted ''<'' @ '' not supported between instances of ''
                     @ quoted (type_name a) @ '' and '' @ quoted (type_name b)))"

text \<open>
  \<^verbatim>\<open>sorted\<close> is a stable sort that compares with \<^verbatim>\<open><\<close> only; an exception of a
  comparison ends it. It is written here as the insertion sort: an element goes in front
  of the first one that is not below it. Where \<^verbatim>\<open><\<close> orders the elements (dates that
  are all naive, or all aware with one offset for each \<^verbatim>\<open>tzinfo\<close> object), every
  stable sort returns this list. Python's own merge sort makes other comparisons, but
  like every sort it cannot finish without comparing some naive date with some aware
  one when the list holds both, so it raises the same TypeError there. On aware dates
  that \<^verbatim>\<open><\<close> does not order (a \<^verbatim>\<open>tzinfo\<close> object with several offsets) the list
  that Python returns depends on the comparisons its sort happens to make; the list
  below is one of the possible ones, and no value is derived from it further down.
\<close>

fun py_insort :: "date option \<Rightarrow> date option list \<Rightarrow> py_error + date option list" where
  "py_insort x [] = Inr [x]"
| "py_insort x (y # ys) =
     (case py_lt y x of
        Inl e \<Rightarrow> Inl e
      | Inr below \<Rightarrow>
          if below then (case py_insort x ys of Inl e \<Rightarrow> Inl e | Inr zs \<Rightarrow> Inr (y # zs))
          else Inr (x # y # ys))"

fun py_sorted :: "date option list \<Rightarrow> py_error + date option list" where
  "py_sorted [] = Inr []"
| "py_sorted (x # xs) =
     (case py_sorted xs of
        Inl e \<Rightarrow> Inl e
      | Inr ys \<Rightarrow> py_insort x ys)"

text \<open>\<^verbatim>\<open>xs[i]\<close>, a negative index counting from the end.\<close>

definition py_index :: "'a list \<Rightarrow> int \<Rightarrow> py_error + 'a" where
  "py_index xs i =
     (if 0 \<le> i \<and> i < int (length xs) then Inr (xs ! nat i)
      else if i < 0 \<and> - int (length xs) \<le> i then Inr (xs ! nat (int (length xs) + i))
      else Inl (IndexError ''list index out of range''))"

text \<open>
  \<^verbatim>\<open>a - b\<close>, the difference in microseconds: of the wall clocks for two naive dates and
  for two aware dates with the same \<^verbatim>\<open>tzinfo\<close> object, of the UTC times for two other
  aware dates. A naive date and an aware one raise TypeError, and so does \<^verbatim>\<open>None\<close>.
\<close>

fun py_sub :: "date option \<Rightarrow> date option \<Rightarrow> py_error + int" where
  "py_sub (Some (Naive x)) (Some (Naive y)) = Inr (x - y)"
| "py_sub (Some (Aware z w off)) (Some (Aware z' w' off')) =
     Inr (if z = z' then w - w' else (w - off) - (w' - off'))"
| "py_sub (Some (Naive x)) (Some (Aware z' w' off')) =
     Inl (TypeError ''can't subtract offset-naive and offset-aware datetimes'')"
| "py_sub (Some (Aware z w off)) (Some (Naive y)) =
     Inl (TypeError ''can't subtract offset-naive and offset-aware datetimes'')"
| "py_sub a b =
     Inl (TypeError (''unsupported operand type(s) for -: ''
                     @ quoted (type_name a) @ '' and '' @ quoted (type_name b)))"

text \<open>\<^verbatim>\<open>timedelta.days\<close>: the whole days of a difference, rounded down.\<close>

definition days :: "int \<Rightarrow> int" where
  "days td = td div 86400000000"

definition calculate_experience :: "(string \<Rightarrow> parse_result) \<Rightarrow> doc \<Rightarrow> py_error + int" where
  "calculate_experience dp d =
     (let dates = collect_dates dp (ents d) in
      if length dates < 2 then Inr 0
      else (case py_sorted (filter truthy_date dates) of
              Inl e \<Rightarrow> Inl e
            | Inr dates' \<Rightarrow>
                if dates' \<noteq> [] then
                  (case py_index dates' (- 1) of
                     Inl e \<Rightarrow> Inl e
                   | Inr hi \<Rightarrow>
                       (case py_index dates' 0 of
                          Inl e \<Rightarrow> Inl e
                        | Inr lo \<Rightarrow>
                            (case py_sub hi lo of
                               Inl e \<Rightarrow> Inl e
                             | Inr td \<Rightarrow> Inr (days td div 365))))
                else Inr 0))"

section \<open>Field extractors on the annotated document\<close>

definition is_build_verb :: "token \<Rightarrow> bool" where
  "is_build_verb t = (tok_pos t = ''VERB'' \<and> tok_lemma t \<in> set [''develop'', ''design'', ''build''])"

definition extract_skills :: "doc \<Rightarrow> string list" where
  "extract_skills d =
     list_of_set
       (filter (\<lambda>chunk. list_ex (\<lambda>t. is_build_verb t \<and> contains (lower chunk) (lower (tok_text t)))
                          (tokens d))
               (noun_chunks d)
        @ map ent_text (filter (\<lambda>e. ent_label e = ''TECH'') (ents d)))"

definition has_org :: "sentence \<Rightarrow> bool" where
  "has_org s = list_ex (\<lambda>e. ent_label e = ''ORG'') (sent_ents s)"

text \<open>\<^verbatim>\<open>sent.text.split(" at ")[-1].split("(")[0].strip()\<close>\<close>

definition company_of :: "string \<Rightarrow> string" where
  "company_of t = strip (hd (split (last (split t '' at '')) ''(''))"

definition next_company :: "string option \<Rightarrow> sentence \<Rightarrow> string option" where
  "next_company cur s =
     (if contains (sent_text s) '' at '' then Some (company_of (sent_text s)) else cur)"

text \<open>\<^verbatim>\<open>if current_company and any(...)\<close>: \<^verbatim>\<open>None\<close> and the empty string are false.\<close>

definition appended :: "string option \<Rightarrow> sentence \<Rightarrow> string list" where
  "appended cur s =
     (case cur of
        None \<Rightarrow> []
      | Some c \<Rightarrow> if c \<noteq> [] \<and> has_org s then [c] else [])"

fun companies_loop :: "string option \<Rightarrow> string list \<Rightarrow> sentence list \<Rightarrow> string list" where
  "companies_loop cur companies [] = companies"
| "companies_loop cur companies (s # ss) =
     companies_loop (next_company cur s)
       (companies @ appended (next_company cur s) s) ss"

definition extract_companies :: "doc \<Rightarrow> string list" where
  "extract_companies d = list_of_set (companies_loop None [] (sents d))"

definition is_position :: "entity \<Rightarrow> bool" where
  "is_position e =
     (ent_label e = ''TITLE'' \<or>
      (ent_root_dep e = ''attr'' \<and> contains (lower (ent_text e)) ''experience''))"

definition extract_positions :: "doc \<Rightarrow> string list" where
  "extract_positions d = list_of_set (map ent_text (filter is_position (ents d)))"

definition extract_certifications :: "doc \<Rightarrow> string list" where
  "extract_certifications d =
     list_of_set (map ent_text (filter (\<lambda>e. ent_label e = ''CERTIFICATION'') (ents d)))"

definition extract_tools :: "doc \<Rightarrow> string list" where
  "extract_tools d =
     list_of_set (map ent_text (filter (\<lambda>e. ent_label e = ''TOOL'') (ents d)))"

section \<open>Parsing one document\<close>

record resume =
  summary :: string
  total_experience :: int
  skills :: "string list"
  companies :: "string list"
  positions :: "string list"
  education :: "string list"
  certifications :: "string list"
  tools :: "string list"

text \<open>
  What the program takes from its libraries and from the operating system: the page texts
  of a PDF file (or the error of opening or reading it), the language pipeline, the date
  parser, the JSON serialiser, and for each path whether creating the directory, listing
  it, opening a file or writing to the opened file fails. A write that fails leaves the
  file on disk with what had been written until then.
\<close>

record env =
  pdf_pages :: "string \<Rightarrow> py_error + string list"
  nlp :: "string \<Rightarrow> py_error + doc"
  date_parse :: "string \<Rightarrow> parse_result"
  json_dump :: "resume \<Rightarrow> string"
  makedirs_fails :: "string \<Rightarrow> py_error option"
  listdir :: "string \<Rightarrow> py_error + string list"
  open_fails :: "string \<Rightarrow> py_error option"
  write_fails :: "string \<Rightarrow> (py_error \<times> string) option"

text \<open>\<^verbatim>\<open>sep.join(xs)\<close>\<close>

fun join :: "string \<Rightarrow> string list \<Rightarrow> string" where
  "join sep [] = []"
| "join sep [x] = x"
| "join sep (x # y # ys) = x @ sep @ join sep (y # ys)"

definition extract_text :: "env \<Rightarrow> string \<Rightarrow> py_error + string" where
  "extract_text E pdf_path =
     (case pdf_pages E pdf_path of
        Inl e \<Rightarrow> Inl e
      | Inr pages \<Rightarrow> Inr (join [nl] pages))"

definition parse_resume :: "env \<Rightarrow> string \<Rightarrow> py_error + resume" where
  "parse_resume E pdf_path =
     (case extract_text E pdf_path of
        Inl e \<Rightarrow> Inl e
      | Inr text \<Rightarrow>
          (case nlp E text of
             Inl e \<Rightarrow> Inl e
           | Inr d \<Rightarrow>
               (case calculate_experience (date_parse E) d of
                  Inl e \<Rightarrow> Inl e
                | Inr years \<Rightarrow>
                    Inr \<lparr> summary = extract_summary text,
                          total_experience = years,
                          skills = extract_skills d,
                          companies = extract_companies d,
                          positions = extract_positions d,
                          education = extract_education text,
                          certifications = extract_certifications d,
                          tools = extract_tools d \<rparr>)))"

section \<open>The batch driver\<close>

text \<open>
  The state the program acts on: the files on disk with their contents, the standard
  output as the list of the \<^verbatim>\<open>print\<close> calls made, and the clock, read by
  \<^verbatim>\<open>datetime.now()\<close>: the \<open>n\<close>-th reading is \<open>clock n\<close>.
\<close>

record datetime =
  year :: nat
  month :: nat
  day :: nat
  hour :: nat
  minute :: nat
  second :: nat
  microsecond :: nat

record world =
  fs :: "string \<rightharpoonup> string"
  stdout :: "string list"
  clock :: "nat \<Rightarrow> datetime"
  ticks :: nat

definition print :: "string \<Rightarrow> world \<Rightarrow> world" where
  "print line w = w\<lparr>stdout := stdout w @ [line]\<rparr>"

definition write_file :: "string \<Rightarrow> string \<Rightarrow> world \<Rightarrow> world" where
  "write_file path content w = w\<lparr>fs := (fs w)(path \<mapsto> content)\<rparr>"

text \<open>\<^verbatim>\<open>os.path.join(a, b)\<close> on POSIX.\<close>

definition path_join :: "string \<Rightarrow> string \<Rightarrow> string" where
  "path_join a b =
     (if prefix ''/'' b then b
      else if a = [] \<or> last a = CHR ''/'' then a @ b
      else a @ ''/'' @ b)"

text \<open>
  \<^verbatim>\<open>os.path.splitext(file)[0]\<close> for a name without directory part: the name up to its
  last dot, unless only dots come before that dot.
\<close>

definition splitext_root :: "string \<Rightarrow> string" where
  "splitext_root p =
     (if CHR ''.'' \<in> set p then
        (let root = rev (tl (dropWhile (\<lambda>c. c \<noteq> CHR ''.'') (rev p)))
         in if list_ex (\<lambda>c. c \<noteq> CHR ''.'') root then root else p)
      else p)"

definition endswith :: "string \<Rightarrow> string \<Rightarrow> bool" where
  "endswith s suf = suffix suf s"

definition error_line :: "string \<Rightarrow> py_error \<Rightarrow> string" where
  "error_line file e = ''Error processing '' @ file @ '': '' @ str_of_error e"

text \<open>\<^verbatim>\<open>os.path.join(output_dir, f"{os.path.splitext(file)[0]}.json")\<close>\<close>

definition output_file :: "string \<Rightarrow> string \<Rightarrow> string" where
  "output_file output_dir file = path_join output_dir (splitext_root file @ ''.json'')"

text \<open>
  The body of the loop: one file of the directory. The \<^verbatim>\<open>except Exception\<close> clause
  takes whatever parsing, opening or writing raises.
\<close>

definition process_file :: "env \<Rightarrow> string \<Rightarrow> string \<Rightarrow> string \<Rightarrow> world \<Rightarrow> world" where
  "process_file E input_dir output_dir file w =
     (if endswith (lower file) ''.pdf'' then
        (case parse_resume E (path_join input_dir file) of
           Inl e \<Rightarrow> print (error_line file e) w
         | Inr result \<Rightarrow>
             (case open_fails E (output_file output_dir file) of
                Some e \<Rightarrow> print (error_line file e) w
              | None \<Rightarrow>
                  (case write_fails E (output_file output_dir file) of
                     Some (e, written) \<Rightarrow>
                       print (error_line file e)
                         (write_file (output_file output_dir file) written w)
                   | None \<Rightarrow>
                       write_file (output_file output_dir file) (json_dump E result) w)))
      else w)"

fun process_files :: "env \<Rightarrow> string \<Rightarrow> string \<Rightarrow> string list \<Rightarrow> world \<Rightarrow> world" where
  "process_files E input_dir output_dir [] w = w"
| "process_files E input_dir output_dir (file # files) w =
     process_files E input_dir output_dir files (process_file E input_dir output_dir file w)"

definition process_resumes :: "env \<Rightarrow> string \<Rightarrow> string \<Rightarrow> world \<Rightarrow> py_error + world" where
  "process_resumes E input_dir output_dir w =
     (case makedirs_fails E output_dir of
        Some e \<Rightarrow> Inl e
      | None \<Rightarrow>
          (case listdir E input_dir of
             Inl e \<Rightarrow> Inl e
           | Inr files \<Rightarrow> Inr (process_files E input_dir output_dir files w)))"

section \<open>The report file\<close>

definition digit :: "nat \<Rightarrow> char" where
  "digit d = char_of (48 + d)"

fun decimal :: "nat \<Rightarrow> string" where
  "decimal n = (if n < 10 then [digit n] else decimal (n div 10) @ [digit (n mod 10)])"

declare decimal.simps [simp del]

text \<open>\<^verbatim>\<open>%0wd\<close>\<close>

definition zero_padded :: "nat \<Rightarrow> nat \<Rightarrow> string" where
  "zero_padded width n = replicate (width - length (decimal n)) CHR ''0'' @ decimal n"

text \<open>
  \<^verbatim>\<open>strftime('%Y%m%d')\<close>: the C library writes the year as it is, without padding, and
  the month and the day with two digits.
\<close>

definition strftime_Ymd :: "datetime \<Rightarrow> string" where
  "strftime_Ymd t = decimal (year t) @ zero_padded 2 (month t) @ zero_padded 2 (day t)"

text \<open>\<^verbatim>\<open>str(t)\<close>: the ISO format with a blank, the microseconds left out when zero.\<close>

definition str_datetime :: "datetime \<Rightarrow> string" where
  "str_datetime t =
     zero_padded 4 (year t) @ ''-'' @ zero_padded 2 (month t) @ ''-'' @ zero_padded 2 (day t)
     @ '' '' @ zero_padded 2 (hour t) @ '':'' @ zero_padded 2 (minute t) @ '':''
     @ zero_padded 2 (second t)
     @ (if microsecond t = 0 then [] else ''.'' @ zero_padded 6 (microsecond t))"

definition now :: "world \<Rightarrow> datetime \<times> world" where
  "now w = (clock w (ticks w), w\<lparr>ticks := ticks w + 1\<rparr>)"

text \<open>What \<^verbatim>\<open>open(path, 'a')\<close> and the writes after it do: the file is created when missing.\<close>

definition append_file :: "string \<Rightarrow> string \<Rightarrow> world \<Rightarrow> world" where
  "append_file path line w =
     w\<lparr>fs := (fs w)(path \<mapsto> (case fs w path of None \<Rightarrow> [] | Some old \<Rightarrow> old) @ line)\<rparr>"

text \<open>An argument that is \<^verbatim>\<open>None\<close> or the empty string is false.\<close>

definition truthy :: "string option \<Rightarrow> bool" where
  "truthy x = (case x of None \<Rightarrow> False | Some s \<Rightarrow> s \<noteq> [])"

definition str_of :: "string option \<Rightarrow> string" where
  "str_of x = (case x of None \<Rightarrow> ''None'' | Some s \<Rightarrow> s)"

text \<open>
  The result is the exception the call raises, if any, and the state it leaves. The file
  is opened for appending before the line is built; a write that fails leaves at the end
  of the file what had been written of the line.
\<close>

definition save_report :: "env \<Rightarrow> string \<Rightarrow> string option \<Rightarrow> string option \<Rightarrow> world \<Rightarrow> py_error option \<times> world" where
  "save_report E report_dir filename error w =
     (let (t1, w1) = now w;
          report_path = path_join report_dir (''report_'' @ strftime_Ymd t1 @ ''.log'')
      in case open_fails E report_path of
           Some e \<Rightarrow> (Some e, w1)
         | None \<Rightarrow>
             (let (t2, w2) = now w1;
                  line = (if truthy filename \<and> truthy error
                          then ''['' @ str_datetime t2 @ ''] Error processing '' @ str_of filename
                               @ '': '' @ str_of error @ [nl]
                          else ''['' @ str_datetime t2 @ ''] Processing started'' @ [nl])
              in case write_fails E report_path of
                   Some (e, written) \<Rightarrow> (Some e, append_file report_path written w2)
                 | None \<Rightarrow> (None, append_file report_path line w2)))"

section \<open>Notions of the specification\<close>

text \<open>
  The valid dates of a document, as the specification words them: the DATE entities with
  a text longer than four characters, each parsed, those that do not parse left out.
\<close>

definition valid_dates :: "(string \<Rightarrow> parse_result) \<Rightarrow> entity list \<Rightarrow> date list" where
  "valid_dates dp es =
     concat (map (\<lambda>e. case dp (ent_text e) of Returns (Some t) \<Rightarrow> [t] | _ \<Rightarrow> [])
                 (filter (\<lambda>e. ent_label e = ''DATE'' \<and> 4 < length (ent_text e)) es))"

fun is_aware :: "date \<Rightarrow> bool" where
  "is_aware (Naive x) = False"
| "is_aware (Aware z w off) = True"

text \<open>The dates hold a naive one and an aware one.\<close>

definition mixed :: "date list \<Rightarrow> bool" where
  "mixed ds = (list_ex is_aware ds \<and> list_ex (\<lambda>d. \<not> is_aware d) ds)"

text \<open>The place of a date on the time line: the wall clock of a naive date, the UTC time of an aware one.\<close>

fun instant :: "date \<Rightarrow> int" where
  "instant (Naive x) = x"
| "instant (Aware z w off) = w - off"

text \<open>
  Two dates of one kind; when they are aware and share their \<^verbatim>\<open>tzinfo\<close> object, they
  have the same offset (as with every zone of fixed offset), so that wall clocks and UTC
  times order them alike.
\<close>

fun agree :: "date \<Rightarrow> date \<Rightarrow> bool" where
  "agree (Naive x) (Naive y) = True"
| "agree (Aware z w off) (Aware z' w' off') = (z \<noteq> z' \<or> off = off')"
| "agree (Naive x) (Aware z' w' off') = False"
| "agree (Aware z w off) (Naive y) = False"

text \<open>Dates that are all naive, or all aware with one offset for each \<^verbatim>\<open>tzinfo\<close> object.\<close>

definition coherent :: "date list \<Rightarrow> bool" where
  "coherent ds = list_all (\<lambda>a. list_all (agree a) ds) ds"

text \<open>One of the two keywords of the summary pattern, in any case, starts the text.\<close>

definition keyword_at :: "string \<Rightarrow> bool" where
  "keyword_at s = (ci_prefix ''summary'' s \<or> ci_prefix ''objective'' s)"

text \<open>Some line of the text begins with "summary:" or "objective:", in any case.\<close>

definition has_header_line :: "string \<Rightarrow> bool" where
  "has_header_line text =
     list_ex (\<lambda>line. ci_prefix ''summary:'' line \<or> ci_prefix ''objective:'' line)
       (split text [nl])"

text \<open>
  The error that processing one file of the directory raises, if any: from the parsing,
  from opening the output file, or from writing to it.
\<close>

definition file_error :: "env \<Rightarrow> string \<Rightarrow> string \<Rightarrow> string \<Rightarrow> py_error option" where
  "file_error E input_dir output_dir file =
     (if endswith (lower file) ''.pdf'' then
        (case parse_resume E (path_join input_dir file) of
           Inl e \<Rightarrow> Some e
         | Inr result \<Rightarrow>
             (case open_fails E (output_file output_dir file) of
                Some e \<Rightarrow> Some e
              | None \<Rightarrow> map_option fst (write_fails E (output_file output_dir file))))
      else None)"

definition is_digit :: "char \<Rightarrow> bool" where
  "is_digit c = (48 \<le> (of_char c :: nat) \<and> (of_char c :: nat) \<le> 57)"

text \<open>
  The pieces into which a text is cut at a separator, said without the scan: there is one
  piece at least; joined with the separator they give the text back; in a piece that is
  not the last no separator begins (each cut is at the first separator of what was
  left, so the separators are found from left to right and do not overlap); the last
  piece holds no separator.
\<close>

definition pieces :: "string \<Rightarrow> string \<Rightarrow> string list \<Rightarrow> bool" where
  "pieces sep t ps \<longleftrightarrow>
     ps \<noteq> [] \<and> join sep ps = t \<and>
     list_all (\<lambda>p. \<not> contains (p @ butlast sep) sep) (butlast ps) \<and>
     \<not> contains (last ps) sep"

text \<open>The current company once the sentences \<open>ss\<close> have been scanned.\<close>

definition current_company :: "sentence list \<Rightarrow> string option" where
  "current_company ss = foldl next_company None ss"

section \<open>Inputs of the examples\<close>

definition text_c6 :: string where
  "text_c6 = ''Summary: Built scalable systems.'' @ [nl] @ ''Education: BS Computer Science''"

definition ent :: "string \<Rightarrow> string \<Rightarrow> entity" where
  "ent t l = \<lparr>ent_text = t, ent_label = l, ent_root_dep = ''pobj''\<rparr>"

definition doc_of_ents :: "entity list \<Rightarrow> doc" where
  "doc_of_ents es = \<lparr>ents = es, sents = [], noun_chunks = [], tokens = []\<rparr>"

definition doc_of_sents :: "sentence list \<Rightarrow> doc" where
  "doc_of_sents ss = \<lparr>ents = concat (map sent_ents ss), sents = ss, noun_chunks = [], tokens = []\<rparr>"

text \<open>
  A date parser that knows five texts and raises on the others. Two of its dates are
  naive, 2000 days apart; two are aware, in zones one hour apart.
\<close>

definition dp_example :: "string \<Rightarrow> parse_result" where
  "dp_example t =
     (if t = ''January 2015'' then Returns (Some (Naive 0))
      else if t = ''June 2020'' then Returns (Some (Naive 172800000000000))
      else if t = ''2021-03-01T00:00:00Z'' then Returns (Some (Aware 0 194400000000000 0))
      else if t = ''2023-03-01T00:30:00+01:00''
        then Returns (Some (Aware 1 257473800000000 3600000000))
      else if t = ''recently'' then Returns None
      else Raises)"

definition doc_dates :: doc where
  "doc_dates = doc_of_ents
     [ent ''June 2020'' ''DATE'', ent ''recently'' ''DATE'', ent ''Acme'' ''ORG'',
      ent ''2015'' ''DATE'', ent ''January 2015'' ''DATE'', ent ''long ago'' ''DATE'']"

definition doc_one_date :: doc where
  "doc_one_date = doc_of_ents [ent ''recently'' ''DATE'', ent ''June 2020'' ''DATE'']"

definition doc_no_date :: doc where
  "doc_no_date = doc_of_ents [ent ''recently'' ''DATE'', ent ''recently'' ''DATE'']"

definition doc_aware :: doc where
  "doc_aware = doc_of_ents
     [ent ''2023-03-01T00:30:00+01:00'' ''DATE'', ent ''2021-03-01T00:00:00Z'' ''DATE'']"

definition doc_mixed :: doc where
  "doc_mixed = doc_of_ents [ent ''June 2020'' ''DATE'', ent ''2021-03-01T00:00:00Z'' ''DATE'']"

definition doc_mixed_none :: doc where
  "doc_mixed_none = doc_of_ents
     [ent ''2021-03-01T00:00:00Z'' ''DATE'', ent ''recently'' ''DATE'',
      ent ''January 2015'' ''DATE'']"

definition doc_c8 :: doc where
  "doc_c8 = doc_of_ents
     [ent ''AWS'' ''TECH'', ent ''Certified Solutions'' ''CERTIFICATION'', ent ''Docker'' ''TOOL'']"

definition doc_org_only :: doc where
  "doc_org_only = doc_of_sents
     [\<lparr>sent_text = ''Google builds things.'', sent_ents = [ent ''Google'' ''ORG'']\<rparr>]"

definition acme_s1 :: sentence where
  "acme_s1 = \<lparr>sent_text = ''I worked at Acme Corp (NYC)'', sent_ents = []\<rparr>"

definition acme_s2 :: sentence where
  "acme_s2 = \<lparr>sent_text = ''We shipped features.'', sent_ents = [ent ''We'' ''ORG'']\<rparr>"

text \<open>
  A sentence where two occurrences of " at " overlap, and one with a no-break space
  before the parenthesis.
\<close>

definition overlap_s :: sentence where
  "overlap_s = \<lparr>sent_text = ''We met at at Acme'', sent_ents = []\<rparr>"

definition nbsp_s :: sentence where
  "nbsp_s = \<lparr>sent_text = ''Engineer at Acme'' @ [CHR 0xA0] @ ''(NYC)'',
              sent_ents = [ent ''Acme'' ''ORG'']\<rparr>"

definition doc_paren :: doc where
  "doc_paren = doc_of_sents
     [\<lparr>sent_text = ''Engineer at (Acme Corp)'', sent_ents = [ent ''Acme Corp'' ''ORG'']\<rparr>]"

definition doc_cv :: doc where
  "doc_cv =
     \<lparr>ents = [ent ''AWS'' ''TECH'', ent ''Python'' ''TECH'', ent ''AWS'' ''TECH'',
              ent ''Certified Solutions'' ''CERTIFICATION'', ent ''Docker'' ''TOOL'',
              ent ''Docker'' ''TOOL'', ent ''Engineer'' ''TITLE'', ent ''Engineer'' ''TITLE''],
      sents = [\<lparr>sent_text = ''I worked at Acme Corp (NYC)'',
                 sent_ents = [ent ''Acme Corp'' ''ORG'']\<rparr>,
               \<lparr>sent_text = ''We shipped features with Initech.'',
                 sent_ents = [ent ''Initech'' ''ORG'']\<rparr>],
      noun_chunks = [''I'', ''Acme Corp'', ''We'', ''features''],
      tokens = []\<rparr>"

text \<open>
  A small world: three readable files, one that is not a PDF file, the same annotation
  for every text, one output path that cannot be opened and one on a full disk.
\<close>

definition pages_dup :: "string list" where
  "pages_dup = [''Education:'', ''BS'', ''BS'']"

definition env_example :: env where
  "env_example =
     \<lparr>pdf_pages = (\<lambda>p. if p = ''in/ok.PDF'' then Inr [text_c6]
                       else if p = ''in/dup.pdf'' then Inr pages_dup
                       else if p = ''in/full.pdf'' then Inr [''Objective: ship'']
                       else if p = ''in/locked.pdf'' then Inr [''Objective: ship'']
                       else Inl (Raised ''No /Root object'')),
      nlp = (\<lambda>t. Inr doc_cv),
      date_parse = dp_example,
      json_dump = (\<lambda>r. ''{summary: '' @ summary r @ ''}''),
      makedirs_fails = (\<lambda>p. None),
      listdir = (\<lambda>p. if p = ''in'' then Inr [''bad.pdf'', ''notes.txt'', ''ok.PDF'']
                     else Inl (Raised ''No such file or directory'')),
      open_fails = (\<lambda>p. if p = ''out/locked.json'' then Some (Raised ''Permission denied'')
                        else None),
      write_fails = (\<lambda>p. if p = ''out/full.json''
                         then Some (Raised ''No space left on device'', []) else None)\<rparr>"

definition env_readonly :: env where
  "env_readonly = env_example\<lparr>open_fails := (\<lambda>p. Some (Raised ''Read-only file system''))\<rparr>"

definition env_full :: env where
  "env_full =
     env_example\<lparr>write_fails := (\<lambda>p. Some (Raised ''No space left on device'', ''[2026-11''))\<rparr>"

definition resume_ok :: resume where
  "resume_ok =
     \<lparr>summary = ''Built scalable systems.'', total_experience = 0,
      skills = [''Python'', ''AWS''], companies = [''Acme Corp''], positions = [''Engineer''],
      education = [''BS Computer Science''], certifications = [''Certified Solutions''],
      tools = [''Docker'']\<rparr>"

definition text_mid :: string where
  "text_mid = ''A summary of work''"

text \<open>
  A text with no-break spaces around the summary and a next label with accented
  letters.
\<close>

definition rest_nbsp :: string where
  "rest_nbsp = '':'' @ [CHR 0xA0] @ ''Built it'' @ [CHR 0xA0, nl]
               @ ''R'' @ [CHR 0xE9] @ ''sum'' @ [CHR 0xE9] @ '': x''"

definition text_nbsp :: string where
  "text_nbsp = ''Summary'' @ rest_nbsp"

definition text_plain :: string where
  "text_plain = ''Skills: cooking''"

definition clock_example :: "nat \<Rightarrow> datetime" where
  "clock_example n =
     \<lparr>year = 2026, month = 11, day = 3, hour = 9, minute = 5, second = n,
      microsecond = 250 * n\<rparr>"

definition world0 :: world where
  "world0 = \<lparr>fs = Map.empty, stdout = [], clock = clock_example, ticks = 0\<rparr>"

section \<open>Properties\<close>

subsection \<open>Sets as lists\<close>

lemma distinct_list_of_set: "distinct (list_of_set xs)"
  by (simp add: list_of_set_def)

lemma set_list_of_set: "set (list_of_set xs) = set xs"
  by (simp add: list_of_set_def)

lemma list_of_set_single:
  assumes "set xs = {a}"
  shows "list_of_set xs = [a]"
proof -
  have d: "distinct (list_of_set xs)" and s: "set (list_of_set xs) = {a}"
    using assms by (simp_all add: list_of_set_def)
  from d s have "length (list_of_set xs) = 1"
    by (metis distinct_card card_1_singleton_iff One_nat_def)
  with s show ?thesis
    by (cases "list_of_set xs") auto
qed

subsection \<open>The patterns and their scans\<close>

lemma first_way_Lit:
  "first_way (Lit k) s
     = (if ci_prefix k s then Some ([], take (length k) s, drop (length k) s) else None)"
  by (simp add: first_way_def)

lemma first_way_Alt:
  "first_way (Alt a b) s = (case first_way a s of Some w \<Rightarrow> Some w | None \<Rightarrow> first_way b s)"
  by (simp add: first_way_def split: list.splits)

lemma first_way_Opt:
  "first_way (Opt r) s = (case first_way r s of Some w \<Rightarrow> Some w | None \<Rightarrow> Some ([], [], s))"
  by (simp add: first_way_def split: list.splits)

lemma first_way_Group:
  "first_way (Group r) s = map_option (\<lambda>(g, x, t). (x # g, x, t)) (first_way r s)"
  by (simp add: first_way_def split: list.splits)

lemma first_way_Star: "first_way (Star P) s = Some ([], takeWhile P s, dropWhile P s)"
  by (simp add: first_way_def takeWhile_eq_take[symmetric] dropWhile_eq_drop[symmetric])

lemma first_way_Seq:
  assumes "first_way a s = Some (g, x, t)" and "first_way b t = Some (h, y, u)"
  shows "first_way (Seq a b) s = Some (g @ h, x @ y, u)"
  using assms by (auto simp: first_way_def split: list.splits)

lemma first_way_Seq_None: "first_way a s = None \<Longrightarrow> first_way (Seq a b) s = None"
  by (simp add: first_way_def split: list.splits)

lemma lower_char_fixed:
  assumes "\<not> is_upper c" and "(of_char c :: nat) < 97"
  shows "lower_char x = c \<longleftrightarrow> x = c"
proof
  assume l: "lower_char x = c"
  show "x = c"
  proof (cases "is_upper x")
    case True
    then have "(of_char x :: nat) \<le> 222" and "65 \<le> (of_char x :: nat)"
      by (auto simp: is_upper_def Let_def)
    then have "(of_char (lower_char x) :: nat) = of_char x + 32" and "65 \<le> (of_char x :: nat)"
      using True by (simp_all add: lower_char_def)
    then show ?thesis using assms(2) l by simp
  next
    case False
    then show ?thesis using l by (simp add: lower_char_def)
  qed
next
  assume "x = c"
  then show "lower_char x = c" using assms(1) by (simp add: lower_char_def)
qed

lemma ci_prefix_char:
  assumes "\<not> is_upper c" and "(of_char c :: nat) < 97"
  shows "ci_prefix [c] s \<longleftrightarrow> (\<exists>r. s = c # r)"
proof (cases s)
  case Nil
  then show ?thesis by (simp add: ci_prefix_def lower_def)
next
  case (Cons x r)
  have lc: "lower_char c = c" using assms(1) by (simp add: lower_char_def)
  have "ci_prefix [c] s \<longleftrightarrow> c = lower_char x"
    by (simp add: Cons ci_prefix_def lower_def lc)
  also have "\<dots> \<longleftrightarrow> lower_char x = c" by (rule eq_commute)
  also have "\<dots> \<longleftrightarrow> x = c" by (rule lower_char_fixed[OF assms])
  finally show ?thesis by (simp add: Cons)
qed

lemma ci_prefix_nl: "ci_prefix [nl] s \<longleftrightarrow> (\<exists>r. s = nl # r)"
  by (rule ci_prefix_char) (simp_all add: is_upper_def)

lemma ci_prefix_colon: "ci_prefix '':'' s \<longleftrightarrow> (\<exists>r. s = CHR '':'' # r)"
  by (rule ci_prefix_char) (simp_all add: is_upper_def)

lemma ways_Seq_empty:
  "ways (Seq a b) s = [] \<longleftrightarrow> (\<forall>w\<in>set (ways a s). ways b (snd (snd w)) = [])"
  by (auto simp: split_def)

lemma colon_after_word:
  assumes "n \<le> length (takeWhile is_word r)"
  shows "ci_prefix '':'' (drop n r) \<longleftrightarrow>
           n = length (takeWhile is_word r) \<and> (\<exists>u. dropWhile is_word r = CHR '':'' # u)"
proof (cases "n = length (takeWhile is_word r)")
  case True
  then show ?thesis by (simp add: ci_prefix_colon dropWhile_eq_drop)
next
  case False
  then have lt: "n < length (takeWhile is_word r)" using assms by simp
  then have "n < length r"
    by (meson length_takeWhile_le less_le_trans)
  then have d: "drop n r = r ! n # drop (Suc n) r"
    by (simp add: Cons_nth_drop_Suc)
  have "r ! n = takeWhile is_word r ! n"
    using lt by (simp add: takeWhile_nth)
  then have "is_word (r ! n)"
    using lt by (metis nth_mem set_takeWhileD)
  moreover have "\<not> is_word CHR '':''" by (simp add: is_word_def)
  ultimately have "r ! n \<noteq> CHR '':''" by auto
  then show ?thesis using False d by (simp add: ci_prefix_colon)
qed

lemma starts_with_case:
  "(\<exists>u. xs = c # u) \<longleftrightarrow> (case xs of [] \<Rightarrow> False | d # _ \<Rightarrow> d = c)"
  by (cases xs) auto

lemma label_ways:
  "ways (Seq (Plus is_word) (Lit '':'')) r \<noteq> [] \<longleftrightarrow>
     takeWhile is_word r \<noteq> [] \<and>
     (case dropWhile is_word r of [] \<Rightarrow> False | d # _ \<Rightarrow> d = CHR '':'')"
proof -
  let ?k = "length (takeWhile is_word r)"
  have p: "set (ways (Plus is_word) r) = (\<lambda>n. ([], take n r, drop n r)) ` {1..<Suc ?k}"
    by (simp del: upt_Suc)
  have l: "\<And>t. ways (Lit '':'') t = [] \<longleftrightarrow> \<not> ci_prefix '':'' t"
    by simp
  have "ways (Seq (Plus is_word) (Lit '':'')) r \<noteq> [] \<longleftrightarrow>
          (\<exists>n\<in>{1..<Suc ?k}. ci_prefix '':'' (drop n r))"
    unfolding ways_Seq_empty p l by simp
  also have "\<dots> \<longleftrightarrow> 1 \<le> ?k \<and> (\<exists>u. dropWhile is_word r = CHR '':'' # u)"
  proof
    assume "\<exists>n\<in>{1..<Suc ?k}. ci_prefix '':'' (drop n r)"
    then obtain n where n: "1 \<le> n" "n \<le> ?k" and c: "ci_prefix '':'' (drop n r)"
      by auto
    from colon_after_word[OF n(2)] c n(1)
    show "1 \<le> ?k \<and> (\<exists>u. dropWhile is_word r = CHR '':'' # u)"
      by blast
  next
    assume a: "1 \<le> ?k \<and> (\<exists>u. dropWhile is_word r = CHR '':'' # u)"
    then have "ci_prefix '':'' (drop ?k r)"
      using colon_after_word[of ?k r] by blast
    moreover have "?k \<in> {1..<Suc ?k}" using a by simp
    ultimately show "\<exists>n\<in>{1..<Suc ?k}. ci_prefix '':'' (drop n r)"
      by blast
  qed
  also have "\<dots> \<longleftrightarrow> takeWhile is_word r \<noteq> [] \<and>
     (case dropWhile is_word r of [] \<Rightarrow> False | d # _ \<Rightarrow> d = CHR '':'')"
    by (simp only: starts_with_case) (simp add: Suc_le_eq)
  finally show ?thesis .
qed

lemma label_ahead_ways:
  "ways (Seq (Lit [nl]) (Seq (Plus is_word) (Lit '':''))) u \<noteq> [] \<longleftrightarrow> label_ahead u"
proof (cases "\<exists>r. u = nl # r")
  case True
  then obtain r where u: "u = nl # r" by blast
  have "ci_prefix [nl] u" using u by (simp add: ci_prefix_nl)
  then have "ways (Seq (Lit [nl]) (Seq (Plus is_word) (Lit '':''))) u \<noteq> [] \<longleftrightarrow>
             ways (Seq (Plus is_word) (Lit '':'')) r \<noteq> []"
    using u by simp
  then show ?thesis using u by (simp only: label_ways) (simp add: label_ahead_def)
next
  case False
  then have "\<not> ci_prefix [nl] u" by (simp add: ci_prefix_nl)
  moreover have "\<not> label_ahead u" using False by (cases u) (auto simp: label_ahead_def)
  ultimately show ?thesis by simp
qed

lemma ways_section_ahead:
  "ways section_ahead u = (if section_end u then [([], [], u)] else [])"
proof -
  define A where "A = Seq (Lit [nl]) (Seq (Plus is_word) (Lit '':''))"
  have l: "ways A u = [] \<longleftrightarrow> \<not> label_ahead u"
    unfolding A_def using label_ahead_ways[of u] by blast
  have d: "ways Dollar u = [] \<longleftrightarrow> \<not> at_dollar u"
    by (simp add: at_dollar_def)
  have "ways (Alt A Dollar) u = [] \<longleftrightarrow> \<not> section_end u"
    using l d by (simp add: section_end_def)
  then have "ways (Ahead (Alt A Dollar)) u = (if section_end u then [([], [], u)] else [])"
    by simp
  then show ?thesis
    by (simp only: section_ahead_def A_def)
qed

lemma lazy_first:
  "\<exists>rest. concat (map (\<lambda>n. if section_end (drop n t)
                             then [([p @ take n t], p @ take n t, drop n t)] else [])
                       [0..<Suc (length t)])
     = ([p @ lazy_capture t], p @ lazy_capture t, drop (length (lazy_capture t)) t) # rest"
proof (induction t arbitrary: p)
  case Nil
  show ?case by (simp add: section_end_def at_dollar_def)
next
  case (Cons c cs)
  have shift: "[0..<Suc (length (c # cs))] = 0 # map Suc [0..<Suc (length cs)]"
    by (simp add: upt_conv_Cons map_Suc_upt del: upt_Suc)
  show ?case
  proof (cases "section_end (c # cs)")
    case True
    then show ?thesis unfolding shift by (simp del: upt_Suc)
  next
    case False
    from Cons.IH[of "p @ [c]"] obtain rest where
      "concat (map (\<lambda>n. if section_end (drop n cs)
                         then [([(p @ [c]) @ take n cs], (p @ [c]) @ take n cs, drop n cs)] else [])
                   [0..<Suc (length cs)])
       = ([(p @ [c]) @ lazy_capture cs], (p @ [c]) @ lazy_capture cs,
          drop (length (lazy_capture cs)) cs) # rest"
      by blast
    then show ?thesis
      unfolding shift using False by (simp add: comp_def del: upt_Suc cong: if_cong)
  qed
qed

lemma first_way_lazy_group:
  "first_way (Seq (Group (Lazy any_char)) section_ahead) t
     = Some ([lazy_capture t], lazy_capture t, drop (length (lazy_capture t)) t)"
proof -
  have all: "takeWhile any_char t = t"
    by (simp add: any_char_def)
  have one: "\<And>n. map (\<lambda>(h, y, u). ([take n t] @ h, take n t @ y, u)) (ways section_ahead (drop n t))
      = (if section_end (drop n t) then [([Nil @ take n t], [] @ take n t, drop n t)] else [])"
    by (simp add: ways_section_ahead)
  have "ways (Seq (Group (Lazy any_char)) section_ahead) t
      = concat (map (\<lambda>n. map (\<lambda>(h, y, u). ([take n t] @ h, take n t @ y, u))
                               (ways section_ahead (drop n t)))
                    [0..<Suc (length t)])"
    by (simp add: all comp_def del: upt_Suc)
  then have w: "ways (Seq (Group (Lazy any_char)) section_ahead) t
      = concat (map (\<lambda>n. if section_end (drop n t)
                          then [([Nil @ take n t], [] @ take n t, drop n t)] else [])
                    [0..<Suc (length t)])"
    by (simp only: one)
  from lazy_first[of t "[]"] obtain rest where
    "ways (Seq (Group (Lazy any_char)) section_ahead) t
      = ([Nil @ lazy_capture t], [] @ lazy_capture t, drop (length (lazy_capture t)) t) # rest"
    unfolding w by blast
  then show ?thesis
    by (simp only: first_way_def list.case append_Nil)
qed


lemma first_way_opt_colon: "\<exists>x. first_way (Opt (Lit '':'')) t = Some ([], x, skip_colon t)"
proof (cases "\<exists>r. t = CHR '':'' # r")
  case True
  then obtain r where "t = CHR '':'' # r" by blast
  then show ?thesis
    by (simp add: first_way_Opt first_way_Lit ci_prefix_colon skip_colon_def)
next
  case False
  then have "\<not> ci_prefix '':'' t" by (simp add: ci_prefix_colon)
  moreover have "skip_colon t = t" using False by (cases t) (auto simp: skip_colon_def)
  ultimately show ?thesis
    by (simp add: first_way_Opt first_way_Lit)
qed

lemma first_way_summary_tail:
  "\<exists>x u. first_way (Seq (Opt (Lit '':'')) (Seq (Star is_space)
             (Seq (Group (Lazy any_char)) section_ahead))) t
         = Some ([lazy_capture (dropWhile is_space (skip_colon t))], x, u)"
proof -
  obtain x where c: "first_way (Opt (Lit '':'')) t = Some ([], x, skip_colon t)"
    using first_way_opt_colon by blast
  have "first_way (Seq (Star is_space) (Seq (Group (Lazy any_char)) section_ahead)) (skip_colon t)
      = Some ([] @ [lazy_capture (dropWhile is_space (skip_colon t))],
              takeWhile is_space (skip_colon t) @ lazy_capture (dropWhile is_space (skip_colon t)),
              drop (length (lazy_capture (dropWhile is_space (skip_colon t))))
                (dropWhile is_space (skip_colon t)))"
    by (rule first_way_Seq[OF first_way_Star first_way_lazy_group])
  from first_way_Seq[OF c this] show ?thesis by simp
qed

lemma first_way_education_tail:
  "\<exists>x u. first_way (Seq (Opt (Lit '':'')) (Seq (Group (Lazy any_char)) section_ahead)) t
         = Some ([lazy_capture (skip_colon t)], x, u)"
proof -
  obtain x where c: "first_way (Opt (Lit '':'')) t = Some ([], x, skip_colon t)"
    using first_way_opt_colon by blast
  from first_way_Seq[OF c first_way_lazy_group] show ?thesis by simp
qed

lemma keyword_lengths:
  "length ''summary'' = 7" "length ''objective'' = 9" "length ''education'' = 9"
  by simp_all

lemma match_at_summary:
  "match_at summary_pattern s
     = (if ci_prefix ''summary'' s
          then Some [take 7 s, lazy_capture (dropWhile is_space (skip_colon (drop 7 s)))]
        else if ci_prefix ''objective'' s
          then Some [take 9 s, lazy_capture (dropWhile is_space (skip_colon (drop 9 s)))]
        else None)"
proof -
  let ?kw = "Group (Alt (Lit ''summary'') (Lit ''objective''))"
  let ?tail = "Seq (Opt (Lit '':'')) (Seq (Star is_space)
                 (Seq (Group (Lazy any_char)) section_ahead))"
  have kw: "first_way ?kw s
      = (if ci_prefix ''summary'' s then Some ([take 7 s], take 7 s, drop 7 s)
         else if ci_prefix ''objective'' s then Some ([take 9 s], take 9 s, drop 9 s)
         else None)"
    by (simp only: first_way_Group first_way_Alt first_way_Lit keyword_lengths) simp
  show ?thesis
  proof (cases "ci_prefix ''summary'' s \<or> ci_prefix ''objective'' s")
    case False
    then have "first_way ?kw s = None" using kw by simp
    then have "first_way (Seq ?kw ?tail) s = None" by (rule first_way_Seq_None)
    then show ?thesis using False by (simp add: match_at_def summary_pattern_def)
  next
    case True
    then obtain k where k: "first_way ?kw s = Some ([take k s], take k s, drop k s)"
      and g: "(if ci_prefix ''summary'' s then 7 else 9) = k"
      using kw by (auto split: if_splits)
    obtain x u where
      "first_way ?tail (drop k s)
         = Some ([lazy_capture (dropWhile is_space (skip_colon (drop k s)))], x, u)"
      using first_way_summary_tail by blast
    from first_way_Seq[OF k this]
    have "match_at summary_pattern s
        = Some [take k s, lazy_capture (dropWhile is_space (skip_colon (drop k s)))]"
      by (simp add: match_at_def summary_pattern_def)
    then show ?thesis using True g by auto
  qed
qed

lemma match_at_education:
  "match_at education_pattern s
     = (if ci_prefix ''education'' s
          then Some [take 9 s, lazy_capture (skip_colon (drop 9 s))]
        else None)"
proof -
  let ?kw = "Group (Lit ''education'')"
  let ?tail = "Seq (Opt (Lit '':'')) (Seq (Group (Lazy any_char)) section_ahead)"
  have kw: "first_way ?kw s
      = (if ci_prefix ''education'' s then Some ([take 9 s], take 9 s, drop 9 s) else None)"
    by (simp only: first_way_Group first_way_Lit keyword_lengths) simp
  show ?thesis
  proof (cases "ci_prefix ''education'' s")
    case False
    then have "first_way ?kw s = None" using kw by simp
    then have "first_way (Seq ?kw ?tail) s = None" by (rule first_way_Seq_None)
    then show ?thesis using False by (simp add: match_at_def education_pattern_def)
  next
    case True
    then have k: "first_way ?kw s = Some ([take 9 s], take 9 s, drop 9 s)"
      using kw by simp
    obtain x u where
      "first_way ?tail (drop 9 s) = Some ([lazy_capture (skip_colon (drop 9 s))], x, u)"
      using first_way_education_tail by blast
    from first_way_Seq[OF k this]
    have "match_at education_pattern s = Some [take 9 s, lazy_capture (skip_colon (drop 9 s))]"
      by (simp add: match_at_def education_pattern_def)
    then show ?thesis using True by simp
  qed
qed

lemma group_2: "group [a, b] 2 = b"
  by (simp add: group_def)

lemma match_at_summary_group:
  "map_option (\<lambda>m. group m 2) (match_at summary_pattern s) = summary_match_here s"
  by (simp add: match_at_summary summary_match_here_def group_2)

lemma match_at_education_group:
  "map_option (\<lambda>m. group m 2) (match_at education_pattern s) = education_match_here s"
  by (simp add: match_at_education education_match_here_def group_2)

lemma re_search_summary:
  "map_option (\<lambda>m. group m 2) (re_search summary_pattern s) = summary_search s"
proof (induction s)
  case Nil
  have "\<not> ci_prefix ''summary'' []" "\<not> ci_prefix ''objective'' []"
    by (simp_all add: ci_prefix_def lower_def)
  then show ?case by (simp add: match_at_summary)
next
  case (Cons c cs)
  have m: "summary_match_here (c # cs)
      = map_option (\<lambda>m. group m 2) (match_at summary_pattern (c # cs))"
    by (simp add: match_at_summary_group)
  show ?case
    by (cases "match_at summary_pattern (c # cs)") (simp_all add: m Cons.IH)
qed

lemma re_search_education:
  "map_option (\<lambda>m. group m 2) (re_search education_pattern s) = education_search s"
proof (induction s)
  case Nil
  have "\<not> ci_prefix ''education'' []"
    by (simp add: ci_prefix_def lower_def)
  then show ?case by (simp add: match_at_education)
next
  case (Cons c cs)
  have m: "education_match_here (c # cs)
      = map_option (\<lambda>m. group m 2) (match_at education_pattern (c # cs))"
    by (simp add: match_at_education_group)
  show ?case
    by (cases "match_at education_pattern (c # cs)") (simp_all add: m Cons.IH)
qed

lemma extract_summary_scan:
  "extract_summary text = (case summary_search text of Some g \<Rightarrow> strip g | None \<Rightarrow> [])"
proof -
  have "summary_search text = map_option (\<lambda>m. group m 2) (re_search summary_pattern text)"
    by (simp add: re_search_summary)
  then show ?thesis
    by (cases "re_search summary_pattern text") (simp_all add: extract_summary_def)
qed

lemma extract_education_scan:
  "extract_education text =
     (case education_search text of
        Some g \<Rightarrow> map strip (filter (\<lambda>line. strip line \<noteq> []) (split g [nl]))
      | None \<Rightarrow> [])"
proof -
  have "education_search text = map_option (\<lambda>m. group m 2) (re_search education_pattern text)"
    by (simp add: re_search_education)
  then show ?thesis
    by (cases "re_search education_pattern text") (simp_all add: extract_education_def)
qed

subsection \<open>The worked example of summary and education\<close>

lemma summary_text_c6: "extract_summary text_c6 = ''Built scalable systems.''"
  unfolding extract_summary_scan by code_simp

lemma education_text_c6: "extract_education text_c6 = [''BS Computer Science'']"
  unfolding extract_education_scan by code_simp

text \<open>
  C6. On the text "Summary: Built scalable systems." followed by a newline and
  "Education: BS Computer Science", the summary extractor returns
  "Built scalable systems." and the education extractor the list of the one line
  "BS Computer Science".
\<close>

theorem summary_education_example:
  "extract_summary text_c6 = ''Built scalable systems.'' \<and>
   extract_education text_c6 = [''BS Computer Science'']"
  by (simp add: summary_text_c6 education_text_c6)

subsection \<open>Experience\<close>

lemma filter_collect_dates:
  "filter truthy_date (collect_dates dp es) = map Some (valid_dates dp es)"
  by (induction es)
     (auto simp: valid_dates_def truthy_date_def split: parse_result.splits option.splits)

lemma py_lt_agree: "agree a b \<Longrightarrow> py_lt (Some a) (Some b) = Inr (instant a < instant b)"
  by (cases a; cases b) auto

lemma py_sub_agree: "agree a b \<Longrightarrow> py_sub (Some a) (Some b) = Inr (instant a - instant b)"
  by (cases a; cases b) auto

lemma py_lt_same_kind: "is_aware a = is_aware b \<Longrightarrow> \<exists>r. py_lt (Some a) (Some b) = Inr r"
  by (cases a; cases b) auto

lemma py_sub_same_kind: "is_aware a = is_aware b \<Longrightarrow> \<exists>r. py_sub (Some a) (Some b) = Inr r"
  by (cases a; cases b) auto

lemma py_lt_other_kind:
  "is_aware a \<noteq> is_aware b \<Longrightarrow>
   py_lt (Some a) (Some b)
     = Inl (TypeError ''can't compare offset-naive and offset-aware datetimes'')"
  by (cases a; cases b) auto

lemma py_sub_self: "py_sub (Some t) (Some t) = Inr 0"
  by (cases t) auto

lemma mixed_iff: "mixed ds \<longleftrightarrow> (\<exists>a\<in>set ds. \<exists>b\<in>set ds. is_aware a \<noteq> is_aware b)"
  by (auto simp: mixed_def list_ex_iff)

lemma not_mixed_iff: "\<not> mixed ds \<longleftrightarrow> (\<forall>a\<in>set ds. \<forall>b\<in>set ds. is_aware a = is_aware b)"
  by (auto simp: mixed_def list_ex_iff)

lemma mixed_Cons:
  "mixed (x # xs) \<longleftrightarrow> mixed xs \<or> (\<exists>y\<in>set xs. is_aware y \<noteq> is_aware x)"
  by (auto simp: mixed_def list_ex_iff)

lemma coherent_iff: "coherent ds \<longleftrightarrow> (\<forall>a\<in>set ds. \<forall>b\<in>set ds. agree a b)"
  by (simp add: coherent_def list_all_iff)

lemma agree_same_kind: "agree a b \<Longrightarrow> is_aware a = is_aware b"
  by (cases a; cases b) auto

lemma coherent_not_mixed: "coherent ds \<Longrightarrow> \<not> mixed ds"
  using agree_same_kind by (simp only: coherent_iff not_mixed_iff) blast

lemma mixed_two: "mixed ds \<Longrightarrow> 2 \<le> length ds"
  by (cases ds; cases "tl ds") (auto simp: mixed_def)

text \<open>Where the instants decide, the sort is the stable sort by instant.\<close>

lemma py_insort_agree:
  "\<forall>y\<in>set ys. agree y x \<Longrightarrow>
   py_insort (Some x) (map Some ys) = Inr (map Some (insort_key instant x ys))"
  by (induction ys) (auto simp: py_lt_agree)

lemma py_sorted_agree:
  "\<forall>a\<in>set xs. \<forall>b\<in>set xs. agree a b \<Longrightarrow>
   py_sorted (map Some xs) = Inr (map Some (sort_key instant xs))"
proof (induction xs)
  case Nil
  then show ?case by simp
next
  case (Cons x xs)
  have ih: "py_sorted (map Some xs) = Inr (map Some (sort_key instant xs))"
    using Cons by simp
  have "\<forall>y\<in>set (sort_key instant xs). agree y x"
    using Cons.prems by simp
  then show ?case
    using ih by (simp add: py_insort_agree)
qed

text \<open>Dates of one kind are sorted without an error, into a list of the same dates.\<close>

lemma py_insort_same_kind:
  "\<forall>y\<in>set ys. is_aware y = is_aware x \<Longrightarrow>
   \<exists>zs. py_insort (Some x) (map Some ys) = Inr (map Some zs) \<and>
        set zs = insert x (set ys) \<and> length zs = Suc (length ys)"
proof (induction ys)
  case Nil
  have "py_insort (Some x) (map Some []) = Inr (map Some [x])" by simp
  then show ?case by (metis list.simps(15) length_Cons)
next
  case (Cons y ys)
  obtain r where r: "py_lt (Some y) (Some x) = Inr r"
    using py_lt_same_kind[of y x] Cons.prems by auto
  show ?case
  proof (cases r)
    case True
    obtain zs where zs: "py_insort (Some x) (map Some ys) = Inr (map Some zs)"
        "set zs = insert x (set ys)" "length zs = Suc (length ys)"
      using Cons by auto
    have "py_insort (Some x) (map Some (y # ys)) = Inr (map Some (y # zs))"
      using r True zs(1) by simp
    moreover have "set (y # zs) = insert x (set (y # ys))" using zs(2) by auto
    moreover have "length (y # zs) = Suc (length (y # ys))" using zs(3) by simp
    ultimately show ?thesis by blast
  next
    case False
    have "py_insort (Some x) (map Some (y # ys)) = Inr (map Some (x # y # ys))"
      using r False by simp
    moreover have "set (x # y # ys) = insert x (set (y # ys))" by simp
    moreover have "length (x # y # ys) = Suc (length (y # ys))" by simp
    ultimately show ?thesis by blast
  qed
qed

lemma py_insort_other_kind:
  assumes "ys \<noteq> []" and "\<forall>y\<in>set ys. is_aware y \<noteq> is_aware x"
  shows "py_insort (Some x) (map Some ys)
           = Inl (TypeError ''can't compare offset-naive and offset-aware datetimes'')"
proof -
  obtain y ys' where ys: "ys = y # ys'" using assms(1) by (cases ys) auto
  have "py_lt (Some y) (Some x)
          = Inl (TypeError ''can't compare offset-naive and offset-aware datetimes'')"
    using assms(2) ys by (intro py_lt_other_kind) simp
  then show ?thesis using ys by simp
qed

text \<open>The sort ends well on dates of one kind, and with a TypeError on mixed ones.\<close>

lemma py_sorted_cases:
  "(\<not> mixed xs \<longrightarrow>
      (\<exists>zs. py_sorted (map Some xs) = Inr (map Some zs) \<and> set zs = set xs \<and>
            length zs = length xs)) \<and>
   (mixed xs \<longrightarrow>
      py_sorted (map Some xs)
        = Inl (TypeError ''can't compare offset-naive and offset-aware datetimes''))"
proof (induction xs)
  case Nil
  have "py_sorted (map Some []) = Inr (map Some [])" by simp
  moreover have "\<not> mixed []" by (simp add: mixed_def)
  ultimately show ?case by (metis length_map list.map_disc_iff set_empty)
next
  case (Cons x xs)
  show ?case
  proof (cases "mixed xs")
    case True
    then have "mixed (x # xs)" by (simp add: mixed_Cons)
    moreover have "py_sorted (map Some (x # xs))
        = Inl (TypeError ''can't compare offset-naive and offset-aware datetimes'')"
      using True Cons by simp
    ultimately show ?thesis by simp
  next
    case same: False
    then obtain zs where zs: "py_sorted (map Some xs) = Inr (map Some zs)"
        "set zs = set xs" "length zs = length xs"
      using Cons by auto
    have step: "py_sorted (map Some (x # xs)) = py_insort (Some x) (map Some zs)"
      using zs(1) by simp
    show ?thesis
    proof (cases "mixed (x # xs)")
      case True
      then obtain y where y: "y \<in> set xs" "is_aware y \<noteq> is_aware x"
        using same mixed_Cons[of x xs] by blast
      have "\<forall>a\<in>set xs. \<forall>b\<in>set xs. is_aware a = is_aware b"
        using same by (simp only: not_mixed_iff)
      then have all: "\<forall>z\<in>set zs. is_aware z \<noteq> is_aware x"
        using y zs(2) by blast
      have "zs \<noteq> []" using y(1) zs(2) by auto
      then show ?thesis
        using True step py_insort_other_kind[OF _ all] by simp
    next
      case False
      then have u: "\<forall>a\<in>set (x # xs). \<forall>b\<in>set (x # xs). is_aware a = is_aware b"
        by (simp only: not_mixed_iff)
      have "\<forall>z\<in>set zs. is_aware z = is_aware x"
      proof
        fix z
        assume "z \<in> set zs"
        then have "z \<in> set (x # xs)" using zs(2) by simp
        moreover have "x \<in> set (x # xs)" by simp
        ultimately show "is_aware z = is_aware x" using u by blast
      qed
      then obtain ws where ws: "py_insort (Some x) (map Some zs) = Inr (map Some ws)"
          "set ws = insert x (set zs)" "length ws = Suc (length zs)"
        using py_insort_same_kind by blast
      have "py_sorted (map Some (x # xs)) = Inr (map Some ws)" using step ws(1) by simp
      moreover have "set ws = set (x # xs)" using ws(2) zs(2) by simp
      moreover have "length ws = length (x # xs)" using ws(3) zs(3) by simp
      ultimately show ?thesis using False by blast
    qed
  qed
qed

lemma sorted_hd_Min:
  fixes ys :: "int list"
  assumes "sorted ys" and "ys \<noteq> []"
  shows "hd ys = Min (set ys)"
proof -
  have "hd ys \<in> set ys" using assms(2) by simp
  moreover have "\<And>z. z \<in> set ys \<Longrightarrow> hd ys \<le> z"
    using assms by (cases ys) auto
  ultimately have "Min (set ys) = hd ys" by (intro Min_eqI) auto
  then show ?thesis by simp
qed

lemma sorted_last_Max:
  fixes ys :: "int list"
  assumes "sorted ys" and "ys \<noteq> []"
  shows "last ys = Max (set ys)"
proof -
  have "last ys \<in> set ys" using assms(2) by simp
  moreover have "\<And>z. z \<in> set ys \<Longrightarrow> z \<le> last ys"
    using assms(1) by (induction ys) auto
  ultimately have "Max (set ys) = last ys" by (intro Max_eqI) auto
  then show ?thesis by simp
qed

lemma hd_sort_Min:
  assumes "V \<noteq> []"
  shows "instant (hd (sort_key instant V)) = Min (instant ` set V)"
proof -
  have ne: "sort_key instant V \<noteq> []" using assms by (metis length_sort length_0_conv)
  have "hd (map instant (sort_key instant V)) = Min (set (map instant (sort_key instant V)))"
    using ne by (intro sorted_hd_Min) simp_all
  then show ?thesis using ne by (simp add: hd_map)
qed

lemma last_sort_Max:
  assumes "V \<noteq> []"
  shows "instant (last (sort_key instant V)) = Max (instant ` set V)"
proof -
  have ne: "sort_key instant V \<noteq> []" using assms by (metis length_sort length_0_conv)
  have "last (map instant (sort_key instant V)) = Max (set (map instant (sort_key instant V)))"
    using ne by (intro sorted_last_Max) simp_all
  then show ?thesis using ne by (simp add: last_map)
qed

lemma py_index_last: "xs \<noteq> [] \<Longrightarrow> py_index xs (- 1) = Inr (last xs)"
  by (cases xs rule: rev_cases) (auto simp: py_index_def nth_append)

lemma py_index_hd: "xs \<noteq> [] \<Longrightarrow> py_index xs 0 = Inr (hd xs)"
  by (cases xs) (auto simp: py_index_def)

text \<open>What the program returns, in terms of the dates that parsed.\<close>

lemma length_valid_dates: "length (valid_dates dp es) \<le> length (collect_dates dp es)"
  by (metis filter_collect_dates length_filter_le length_map)

lemma calculate_experience_short:
  assumes "length (valid_dates dp (ents d)) < 2"
  shows "calculate_experience dp d = Inr 0"
proof -
  let ?V = "valid_dates dp (ents d)"
  let ?ds = "collect_dates dp (ents d)"
  have f: "filter truthy_date ?ds = map Some ?V" by (rule filter_collect_dates)
  consider "?V = []" | t where "?V = [t]"
    using assms by (cases ?V; cases "tl ?V") auto
  then show ?thesis
  proof cases
    case 1
    then show ?thesis using f by (simp add: calculate_experience_def Let_def)
  next
    case 2
    then show ?thesis using f
      by (simp add: calculate_experience_def Let_def py_index_def py_sub_self days_def)
  qed
qed

lemma calculate_experience_sorted:
  assumes "2 \<le> length (valid_dates dp (ents d))"
    and "py_sorted (map Some (valid_dates dp (ents d))) = Inr (map Some zs)"
    and "zs \<noteq> []"
  shows "calculate_experience dp d
           = (case py_sub (Some (last zs)) (Some (hd zs)) of
                Inl e \<Rightarrow> Inl e
              | Inr td \<Rightarrow> Inr (days td div 365))"
proof -
  have long: "\<not> length (collect_dates dp (ents d)) < 2"
    using assms(1) length_valid_dates[of dp "ents d"] by simp
  have ne: "map Some zs \<noteq> []" using assms(3) by simp
  have l: "last (map Some zs) = Some (last zs)" using assms(3) by (simp add: last_map)
  have h: "hd (map Some zs) = Some (hd zs)" using assms(3) by (simp add: hd_map)
  show ?thesis
    using long assms(2) ne
    by (simp add: calculate_experience_def Let_def filter_collect_dates
          py_index_last[OF ne] py_index_hd[OF ne] l h del: map_is_Nil_conv)
qed

lemma calculate_experience_coherent:
  assumes "2 \<le> length (valid_dates dp (ents d))" and "coherent (valid_dates dp (ents d))"
  shows "calculate_experience dp d
           = Inr (days (instant (last (sort_key instant (valid_dates dp (ents d))))
                        - instant (hd (sort_key instant (valid_dates dp (ents d))))) div 365)"
proof -
  let ?V = "valid_dates dp (ents d)"
  let ?S = "sort_key instant ?V"
  have ag: "\<forall>a\<in>set ?V. \<forall>b\<in>set ?V. agree a b"
    using assms(2) by (simp add: coherent_iff)
  have s: "py_sorted (map Some ?V) = Inr (map Some ?S)"
    using ag by (rule py_sorted_agree)
  have ne: "?S \<noteq> []" using assms(1) by (metis length_sort length_0_conv not_numeral_le_zero)
  have "last ?S \<in> set ?V" "hd ?S \<in> set ?V"
    using last_in_set[OF ne] hd_in_set[OF ne] by simp_all
  then have "agree (last ?S) (hd ?S)" using ag by blast
  then have "py_sub (Some (last ?S)) (Some (hd ?S)) = Inr (instant (last ?S) - instant (hd ?S))"
    by (rule py_sub_agree)
  then show ?thesis
    using calculate_experience_sorted[OF assms(1) s ne] by simp
qed

lemma calculate_experience_same_kind:
  assumes "2 \<le> length (valid_dates dp (ents d))" and "\<not> mixed (valid_dates dp (ents d))"
  shows "\<exists>n. calculate_experience dp d = Inr n"
proof -
  let ?V = "valid_dates dp (ents d)"
  obtain zs where zs: "py_sorted (map Some ?V) = Inr (map Some zs)" "set zs = set ?V"
      "length zs = length ?V"
    using py_sorted_cases[of ?V] assms(2) by blast
  have ne: "zs \<noteq> []" using zs(3) assms(1) by auto
  have "last zs \<in> set ?V" "hd zs \<in> set ?V"
    using last_in_set[OF ne] hd_in_set[OF ne] zs(2) by simp_all
  then have "is_aware (last zs) = is_aware (hd zs)"
    using assms(2) not_mixed_iff[of "valid_dates dp (ents d)"] by blast
  then obtain td where "py_sub (Some (last zs)) (Some (hd zs)) = Inr td"
    using py_sub_same_kind by blast
  then show ?thesis
    using calculate_experience_sorted[OF assms(1) zs(1) ne] by simp
qed

lemma calculate_experience_mixed:
  assumes "mixed (valid_dates dp (ents d))"
  shows "calculate_experience dp d
           = Inl (TypeError ''can't compare offset-naive and offset-aware datetimes'')"
proof -
  have "2 \<le> length (valid_dates dp (ents d))" using assms by (rule mixed_two)
  then have long: "\<not> length (collect_dates dp (ents d)) < 2"
    using length_valid_dates[of dp "ents d"] by simp
  have "py_sorted (map Some (valid_dates dp (ents d)))
          = Inl (TypeError ''can't compare offset-naive and offset-aware datetimes'')"
    using py_sorted_cases[of "valid_dates dp (ents d)"] assms by blast
  then show ?thesis
    using long by (simp add: calculate_experience_def Let_def filter_collect_dates)
qed

lemma days_span_nonneg:
  assumes "V \<noteq> []"
  shows "0 \<le> days (Max (instant ` set V) - Min (instant ` set V)) div 365"
proof -
  have "Min (instant ` set V) \<le> Max (instant ` set V)"
    using assms by (simp add: Min_le_iff)
  then have "0 \<le> days (Max (instant ` set V) - Min (instant ` set V))"
    by (simp add: days_def)
  then show ?thesis
    by (simp add: pos_imp_zdiv_nonneg_iff)
qed

lemma valid_dates_doc_dates:
  "valid_dates dp_example (ents doc_dates) = [Naive 172800000000000, Naive 0]"
  by (simp add: valid_dates_def doc_dates_def doc_of_ents_def ent_def dp_example_def)

lemma valid_dates_doc_one_date:
  "valid_dates dp_example (ents doc_one_date) = [Naive 172800000000000]"
  by (simp add: valid_dates_def doc_one_date_def doc_of_ents_def ent_def dp_example_def)

lemma valid_dates_doc_aware:
  "valid_dates dp_example (ents doc_aware)
     = [Aware 1 257473800000000 3600000000, Aware 0 194400000000000 0]"
  by (simp add: valid_dates_def doc_aware_def doc_of_ents_def ent_def dp_example_def)

lemma valid_dates_doc_mixed:
  "valid_dates dp_example (ents doc_mixed)
     = [Naive 172800000000000, Aware 0 194400000000000 0]"
  by (simp add: valid_dates_def doc_mixed_def doc_of_ents_def ent_def dp_example_def)

lemma valid_dates_doc_mixed_none:
  "valid_dates dp_example (ents doc_mixed_none) = [Aware 0 194400000000000 0, Naive 0]"
  by (simp add: valid_dates_def doc_mixed_none_def doc_of_ents_def ent_def dp_example_def)

lemma collect_dates_doc_mixed:
  "collect_dates dp_example (ents doc_mixed)
     = [Some (Naive 172800000000000), Some (Aware 0 194400000000000 0)]"
  by (simp add: doc_mixed_def doc_of_ents_def ent_def dp_example_def)

lemma collect_dates_doc_mixed_none:
  "collect_dates dp_example (ents doc_mixed_none)
     = [Some (Aware 0 194400000000000 0), None, Some (Naive 0)]"
  by (simp add: doc_mixed_none_def doc_of_ents_def ent_def dp_example_def)

text \<open>
  C2, as the claim has it, fails: a document with the two dates "June 2020", which
  parses to a naive date, and "2021-03-01T00:00:00Z", which parses to an aware one, has
  two valid dates, and yet no number is returned: the sort raises a TypeError.
\<close>

theorem experience_of_mixed_dates:
  "valid_dates dp_example (ents doc_mixed)
     = [Naive 172800000000000, Aware 0 194400000000000 0] \<and>
   calculate_experience dp_example doc_mixed
     = Inl (TypeError ''can't compare offset-naive and offset-aware datetimes'')"
  by (simp add: valid_dates_doc_mixed collect_dates_doc_mixed calculate_experience_def Let_def
        truthy_date_def)

text \<open>
  C2, amended. The experience is computed from the DATE entities whose text is longer
  than four characters, parsed, the unparseable ones left out. With fewer than two such
  dates it is zero. With two or more that are all naive, or all aware with one offset for
  each time zone object, it is the whole days between the earliest and the latest of them
  (the first and the last after sorting by their place on the time line), divided by 365
  and rounded down, and it is not negative. With a naive date and an aware one among
  them nothing is returned: the call raises a TypeError.
\<close>

theorem total_experience_spec:
  "(length (valid_dates dp (ents d)) < 2 \<longrightarrow> calculate_experience dp d = Inr 0) \<and>
   (2 \<le> length (valid_dates dp (ents d)) \<and> coherent (valid_dates dp (ents d)) \<longrightarrow>
      calculate_experience dp d
        = Inr (days (Max (instant ` set (valid_dates dp (ents d)))
                     - Min (instant ` set (valid_dates dp (ents d)))) div 365) \<and>
      Max (instant ` set (valid_dates dp (ents d)))
        = instant (last (sort_key instant (valid_dates dp (ents d)))) \<and>
      Min (instant ` set (valid_dates dp (ents d)))
        = instant (hd (sort_key instant (valid_dates dp (ents d)))) \<and>
      0 \<le> days (Max (instant ` set (valid_dates dp (ents d)))
                - Min (instant ` set (valid_dates dp (ents d)))) div 365) \<and>
   (mixed (valid_dates dp (ents d)) \<longrightarrow>
      calculate_experience dp d
        = Inl (TypeError ''can't compare offset-naive and offset-aware datetimes''))"
proof (intro conjI impI)
  assume "length (valid_dates dp (ents d)) < 2"
  then show "calculate_experience dp d = Inr 0"
    by (rule calculate_experience_short)
next
  assume "mixed (valid_dates dp (ents d))"
  then show "calculate_experience dp d
      = Inl (TypeError ''can't compare offset-naive and offset-aware datetimes'')"
    by (rule calculate_experience_mixed)
next
  assume two: "2 \<le> length (valid_dates dp (ents d)) \<and> coherent (valid_dates dp (ents d))"
  then have ne: "valid_dates dp (ents d) \<noteq> []" by auto
  show "Max (instant ` set (valid_dates dp (ents d)))
          = instant (last (sort_key instant (valid_dates dp (ents d))))"
    by (simp add: last_sort_Max[OF ne])
  show "Min (instant ` set (valid_dates dp (ents d)))
          = instant (hd (sort_key instant (valid_dates dp (ents d))))"
    by (simp add: hd_sort_Min[OF ne])
  show "calculate_experience dp d
        = Inr (days (Max (instant ` set (valid_dates dp (ents d)))
                     - Min (instant ` set (valid_dates dp (ents d)))) div 365)"
    using two calculate_experience_coherent[of dp d]
    by (simp add: last_sort_Max[OF ne] hd_sort_Min[OF ne])
  show "0 \<le> days (Max (instant ` set (valid_dates dp (ents d)))
                   - Min (instant ` set (valid_dates dp (ents d)))) div 365"
    by (rule days_span_nonneg[OF ne])
qed

theorem total_experience_spec_witness:
  "length (valid_dates dp_example (ents doc_one_date)) < 2 \<and>
   calculate_experience dp_example doc_one_date = Inr 0 \<and>
   2 \<le> length (valid_dates dp_example (ents doc_dates)) \<and>
   coherent (valid_dates dp_example (ents doc_dates)) \<and>
   calculate_experience dp_example doc_dates = Inr 5 \<and>
   2 \<le> length (valid_dates dp_example (ents doc_aware)) \<and>
   coherent (valid_dates dp_example (ents doc_aware)) \<and>
   calculate_experience dp_example doc_aware = Inr 1 \<and>
   mixed (valid_dates dp_example (ents doc_mixed_none)) \<and>
   calculate_experience dp_example doc_mixed_none
     = Inl (TypeError ''can't compare offset-naive and offset-aware datetimes'')"
  using total_experience_spec[of dp_example doc_one_date]
        total_experience_spec[of dp_example doc_dates]
        total_experience_spec[of dp_example doc_aware]
        total_experience_spec[of dp_example doc_mixed_none]
  by (simp add: valid_dates_doc_dates valid_dates_doc_one_date valid_dates_doc_aware
        valid_dates_doc_mixed_none days_def coherent_def mixed_def)

text \<open>
  C10, as the claim has it, fails: the values \<^verbatim>\<open>None\<close> are taken out, but the dates that
  stay may still not compare. A document with the dates "2021-03-01T00:00:00Z" (aware),
  "recently" (which parses to \<^verbatim>\<open>None\<close>) and "January 2015" (naive) gives no integer: the
  sort raises a TypeError.
\<close>

theorem experience_not_total:
  "collect_dates dp_example (ents doc_mixed_none)
     = [Some (Aware 0 194400000000000 0), None, Some (Naive 0)] \<and>
   filter truthy_date (collect_dates dp_example (ents doc_mixed_none))
     = [Some (Aware 0 194400000000000 0), Some (Naive 0)] \<and>
   calculate_experience dp_example doc_mixed_none
     = Inl (TypeError ''can't compare offset-naive and offset-aware datetimes'')"
  by (simp add: collect_dates_doc_mixed_none calculate_experience_def Let_def truthy_date_def)

text \<open>
  C10, amended. A candidate DATE entity whose parse yields \<^verbatim>\<open>None\<close> never takes part in
  the sort or the subtraction: the values \<^verbatim>\<open>None\<close> are taken out first, and when nothing is
  left the result is zero. The function returns an integer exactly when the dates that
  parsed do not hold a naive date together with an aware one; when they do, it raises a
  TypeError.
\<close>

theorem calculate_experience_total:
  "((\<exists>n. calculate_experience dp d = Inr n) \<longleftrightarrow> \<not> mixed (valid_dates dp (ents d))) \<and>
   (mixed (valid_dates dp (ents d)) \<longrightarrow>
      calculate_experience dp d
        = Inl (TypeError ''can't compare offset-naive and offset-aware datetimes'')) \<and>
   None \<notin> set (filter truthy_date (collect_dates dp (ents d))) \<and>
   filter truthy_date (collect_dates dp (ents d)) = map Some (valid_dates dp (ents d)) \<and>
   (filter truthy_date (collect_dates dp (ents d)) = [] \<longrightarrow> calculate_experience dp d = Inr 0)"
proof (intro conjI impI)
  show "(\<exists>n. calculate_experience dp d = Inr n) \<longleftrightarrow> \<not> mixed (valid_dates dp (ents d))"
  proof (cases "mixed (valid_dates dp (ents d))")
    case True
    then show ?thesis by (simp add: calculate_experience_mixed)
  next
    case False
    show ?thesis
    proof (cases "length (valid_dates dp (ents d)) < 2")
      case True
      then show ?thesis using False by (simp add: calculate_experience_short)
    next
      case long: False
      then have "2 \<le> length (valid_dates dp (ents d))" by simp
      then show ?thesis using False calculate_experience_same_kind by blast
    qed
  qed
  show "None \<notin> set (filter truthy_date (collect_dates dp (ents d)))"
    by (simp add: truthy_date_def)
  show "filter truthy_date (collect_dates dp (ents d)) = map Some (valid_dates dp (ents d))"
    by (rule filter_collect_dates)
next
  assume "mixed (valid_dates dp (ents d))"
  then show "calculate_experience dp d
      = Inl (TypeError ''can't compare offset-naive and offset-aware datetimes'')"
    by (rule calculate_experience_mixed)
next
  assume "filter truthy_date (collect_dates dp (ents d)) = []"
  then have "valid_dates dp (ents d) = []"
    by (simp add: filter_collect_dates)
  then show "calculate_experience dp d = Inr 0"
    by (simp add: calculate_experience_short)
qed

theorem calculate_experience_total_witness:
  "filter truthy_date (collect_dates dp_example (ents doc_no_date)) = [] \<and>
   collect_dates dp_example (ents doc_no_date) = [None, None] \<and>
   calculate_experience dp_example doc_no_date = Inr 0 \<and>
   mixed (valid_dates dp_example (ents doc_mixed)) \<and>
   calculate_experience dp_example doc_mixed
     = Inl (TypeError ''can't compare offset-naive and offset-aware datetimes'') \<and>
   \<not> mixed (valid_dates dp_example (ents doc_aware)) \<and>
   (\<exists>n. calculate_experience dp_example doc_aware = Inr n)"
  using calculate_experience_total[of dp_example doc_no_date]
        calculate_experience_total[of dp_example doc_mixed]
        calculate_experience_total[of dp_example doc_aware]
  by (simp add: doc_no_date_def doc_of_ents_def ent_def dp_example_def truthy_date_def
        valid_dates_doc_mixed valid_dates_doc_aware mixed_def)

subsection \<open>Substrings and splitting\<close>

lemma contains_sublist: "contains s sub = sublist sub s"
  by (induction s) (auto simp: sublist_Cons_right)

lemma contains_iff: "contains s sub \<longleftrightarrow> (\<exists>p q. s = p @ sub @ q)"
  by (simp add: contains_sublist sublist_def)

text \<open>A split has at least one piece, so its first and its last piece exist.\<close>

lemma split_from_nonempty: "split_from sep k cur s \<noteq> []"
  by (induction s arbitrary: k cur) simp_all

lemma split_nonempty: "split s sep \<noteq> []"
  by (simp add: split_def split_from_nonempty)

lemma split_from_skip:
  "k \<le> length s \<Longrightarrow> split_from sep k cur s = split_from sep 0 cur (drop k s)"
proof (induction s arbitrary: k)
  case Nil
  then show ?case by simp
next
  case (Cons c cs)
  show ?case
  proof (cases k)
    case 0
    then show ?thesis by simp
  next
    case (Suc j)
    then show ?thesis using Cons by simp
  qed
qed

lemma split_from_found:
  assumes "sep \<noteq> []"
  shows "split_from sep 0 cur (sep @ rest) = rev cur # split_from sep 0 [] rest"
proof -
  obtain c cs where sep: "sep = c # cs" using assms by (cases sep) auto
  have "split_from sep 0 cur (sep @ rest) = rev cur # split_from sep (length cs) [] (cs @ rest)"
    by (simp add: sep)
  also have "split_from sep (length cs) [] (cs @ rest) = split_from sep 0 [] rest"
    by (subst split_from_skip) simp_all
  finally show ?thesis .
qed

lemma split_from_absent:
  "\<not> contains s sep \<Longrightarrow> split_from sep 0 cur s = [rev cur @ s]"
  by (induction s arbitrary: cur) auto

lemma split_from_last:
  assumes "sep \<noteq> []" and "contains s sep"
  shows "\<exists>pre. s = pre @ sep @ last (split_from sep 0 cur s) \<and>
               \<not> contains (last (split_from sep 0 cur s)) sep \<and>
               split_from sep 0 cur s \<noteq> []"
  using assms(2)
proof (induction s arbitrary: cur rule: length_induct)
  case (1 s)
  from "1.prems" assms(1) obtain c cs where s: "s = c # cs"
    by (cases s) auto
  show ?case
  proof (cases "prefix sep s")
    case True
    then obtain rest where rest: "s = sep @ rest" by (auto simp: prefix_def)
    have len: "length rest < length s" using rest assms(1) by simp
    have eq: "split_from sep 0 cur s = rev cur # split_from sep 0 [] rest"
      using split_from_found[OF assms(1)] rest by simp
    show ?thesis
    proof (cases "contains rest sep")
      case True
      from "1.IH" len True obtain pre where
        pre: "rest = pre @ sep @ last (split_from sep 0 [] rest)"
        and no: "\<not> contains (last (split_from sep 0 [] rest)) sep"
        and ne: "split_from sep 0 [] rest \<noteq> []"
        by blast
      have "s = (sep @ pre) @ sep @ last (split_from sep 0 cur s)"
        using rest pre ne eq by simp
      then show ?thesis using no ne eq by auto
    next
      case False
      then have "split_from sep 0 [] rest = [rest]"
        by (simp add: split_from_absent)
      then show ?thesis using eq rest False by auto
    qed
  next
    case False
    then have step: "split_from sep 0 cur s = split_from sep 0 (c # cur) cs"
      using s by simp
    have "contains cs sep" using "1.prems" False s by simp
    moreover have "length cs < length s" using s by simp
    ultimately obtain pre where
      pre: "cs = pre @ sep @ last (split_from sep 0 (c # cur) cs)"
      and no: "\<not> contains (last (split_from sep 0 (c # cur) cs)) sep"
      and ne: "split_from sep 0 (c # cur) cs \<noteq> []"
      using "1.IH" by blast
    have "s = (c # pre) @ sep @ last (split_from sep 0 cur s)"
      using s pre step by simp
    then show ?thesis using no ne step by auto
  qed
qed

lemma split_from_hd:
  "hd (split_from [c] 0 cur s) = rev cur @ takeWhile (\<lambda>x. x \<noteq> c) s"
  by (induction s arbitrary: cur) auto

lemma split_at_last:
  assumes "contains t '' at ''"
  shows "\<exists>pre. t = pre @ '' at '' @ last (split t '' at '') \<and>
               \<not> contains (last (split t '' at '')) '' at ''"
  using split_from_last[OF _ assms, of "[]"] by (auto simp: split_def)

lemma contains_length: "contains s sub \<Longrightarrow> length sub \<le> length s"
  by (induction s) (auto dest: prefix_length_le)

lemma prefix_before_sep:
  assumes "sep \<noteq> []" and "p \<noteq> []" and "prefix sep (p @ sep @ r)"
  shows "prefix sep (p @ butlast sep)"
proof -
  have "p @ sep @ r = (p @ butlast sep) @ (last sep # r)"
    using assms(1) by (simp add: append_butlast_last_id[symmetric] del: append_butlast_last_id)
  then have "prefix (p @ butlast sep) (p @ sep @ r)"
    by (metis prefixI)
  then have "prefix sep (p @ butlast sep) \<or> prefix (p @ butlast sep) sep"
    using assms(3) by (metis prefix_same_cases)
  moreover have "length sep \<le> length (p @ butlast sep)"
    using assms(1,2) by (cases p; cases sep rule: rev_cases) auto
  ultimately show ?thesis
    by (metis prefix_order.order_refl prefix_length_prefix)
qed

text \<open>The first occurrence of the separator: no occurrence starts before it.\<close>

lemma first_occurrence:
  assumes "sep \<noteq> []"
  shows "contains s sep \<Longrightarrow> \<exists>p r. s = p @ sep @ r \<and> \<not> contains (p @ butlast sep) sep"
proof (induction s)
  case Nil
  then show ?case using assms by simp
next
  case (Cons c cs)
  show ?case
  proof (cases "prefix sep (c # cs)")
    case True
    then obtain r where "c # cs = [] @ sep @ r" by (auto simp: prefix_def)
    moreover have "\<not> contains ([] @ butlast sep) sep"
      using contains_length[of "butlast sep" sep] assms by (cases sep rule: rev_cases) auto
    ultimately show ?thesis by blast
  next
    case False
    then have "contains cs sep" using Cons.prems by simp
    then obtain p r where pr: "cs = p @ sep @ r" "\<not> contains (p @ butlast sep) sep"
      using Cons.IH by blast
    have "\<not> prefix sep ((c # p) @ butlast sep)"
    proof
      assume "prefix sep ((c # p) @ butlast sep)"
      moreover have "prefix ((c # p) @ butlast sep) ((c # p) @ sep @ r)"
        using assms by (cases sep rule: rev_cases) auto
      ultimately have "prefix sep ((c # p) @ sep @ r)" by (rule prefix_order.trans)
      then show False using False pr(1) by simp
    qed
    then have "\<not> contains ((c # p) @ butlast sep) sep" using pr(2) by simp
    moreover have "c # cs = (c # p) @ sep @ r" using pr(1) by simp
    ultimately show ?thesis by blast
  qed
qed

lemma split_from_piece:
  assumes "sep \<noteq> []"
  shows "\<not> contains (p @ butlast sep) sep \<Longrightarrow>
         split_from sep 0 cur (p @ sep @ r) = (rev cur @ p) # split_from sep 0 [] r"
proof (induction p arbitrary: cur)
  case Nil
  then show ?case using split_from_found[OF assms] by simp
next
  case (Cons c p)
  have no: "\<not> prefix sep ((c # p) @ sep @ r)"
  proof
    assume "prefix sep ((c # p) @ sep @ r)"
    then have "prefix sep ((c # p) @ butlast sep)"
      using prefix_before_sep[OF assms, of "c # p" r] by simp
    then show False using Cons.prems by simp
  qed
  have "\<not> contains (p @ butlast sep) sep" using Cons.prems by simp
  then have "split_from sep 0 (c # cur) (p @ sep @ r) = (rev (c # cur) @ p) # split_from sep 0 [] r"
    by (rule Cons.IH)
  then show ?case using no by simp
qed

lemma split_piece:
  "sep \<noteq> [] \<Longrightarrow> \<not> contains (p @ butlast sep) sep \<Longrightarrow> split (p @ sep @ r) sep = p # split r sep"
  using split_from_piece[of sep p "[]" r] by (simp add: split_def)

lemma split_absent: "\<not> contains s sep \<Longrightarrow> split s sep = [s]"
  by (simp add: split_def split_from_absent)

lemma pieces_split:
  assumes "sep \<noteq> []"
  shows "pieces sep t (split t sep)"
proof (induction t rule: length_induct)
  case (1 t)
  show ?case
  proof (cases "contains t sep")
    case False
    then show ?thesis by (simp add: split_absent pieces_def)
  next
    case True
    then obtain p r where pr: "t = p @ sep @ r" "\<not> contains (p @ butlast sep) sep"
      using first_occurrence[OF assms] by blast
    have "length r < length t" using pr(1) assms by simp
    then have ih: "pieces sep r (split r sep)" using 1 by blast
    have s: "split t sep = p # split r sep"
      using split_piece[OF assms pr(2)] pr(1) by simp
    obtain q qs where q: "split r sep = q # qs"
      using split_nonempty[of r sep] by (cases "split r sep") auto
    have ih': "join sep (q # qs) = r"
        "list_all (\<lambda>p. \<not> contains (p @ butlast sep) sep) (butlast (q # qs))"
        "\<not> contains (last (q # qs)) sep"
      using ih unfolding pieces_def q by simp_all
    show ?thesis
      unfolding pieces_def s q using ih' pr by simp
  qed
qed

lemma split_pieces:
  assumes "sep \<noteq> []"
  shows "pieces sep t ps \<Longrightarrow> split t sep = ps"
proof (induction ps arbitrary: t)
  case Nil
  then show ?case by (simp add: pieces_def)
next
  case (Cons p qs)
  show ?case
  proof (cases qs)
    case Nil
    then have "p = t" "\<not> contains t sep" using Cons.prems by (auto simp: pieces_def)
    then show ?thesis using Nil by (simp add: split_absent)
  next
    case (Cons q qs')
    have t: "t = p @ sep @ join sep qs" using Cons.prems Cons by (simp add: pieces_def)
    have no: "\<not> contains (p @ butlast sep) sep" using Cons.prems Cons by (simp add: pieces_def)
    have "pieces sep (join sep qs) qs" using Cons.prems Cons by (simp add: pieces_def)
    then have "split (join sep qs) sep = qs" by (rule Cons.IH)
    then show ?thesis using split_piece[OF assms no, of "join sep qs"] t by simp
  qed
qed

lemma split_iff: "sep \<noteq> [] \<Longrightarrow> split t sep = ps \<longleftrightarrow> pieces sep t ps"
  using pieces_split split_pieces by blast

lemma company_of_takeWhile:
  "company_of t = strip (takeWhile (\<lambda>c. c \<noteq> CHR ''('') (last (split t '' at '')))"
  using split_from_hd[of "CHR ''(''" "[]"] by (simp add: company_of_def split_def)

subsection \<open>Companies\<close>

lemma companies_loop_set:
  "set (companies_loop cur acc ss) =
     set acc \<union> {c. c \<noteq> [] \<and> (\<exists>i<length ss. has_org (ss ! i) \<and>
                                 foldl next_company cur (take (Suc i) ss) = Some c)}"
proof (induction ss arbitrary: cur acc)
  case Nil
  then show ?case by simp
next
  case (Cons s ss)
  have idx: "\<And>P. (\<exists>i<Suc (length ss). P i) \<longleftrightarrow> P 0 \<or> (\<exists>j<length ss. P (Suc j))"
    by (metis less_Suc_eq_0_disj Suc_less_eq zero_less_Suc)
  have app: "set (appended (next_company cur s) s)
             = {c. c \<noteq> [] \<and> has_org s \<and> next_company cur s = Some c}"
    by (auto simp: appended_def split: option.splits)
  show ?case
    by (simp add: Cons.IH idx app) blast
qed

lemma companies_loop_no_at:
  "\<forall>s\<in>set ss. \<not> contains (sent_text s) '' at '' \<Longrightarrow> companies_loop None acc ss = acc"
  by (induction ss arbitrary: acc) (simp_all add: next_company_def appended_def)

lemma company_of_acme: "company_of ''I worked at Acme Corp (NYC)'' = ''Acme Corp''"
  by code_simp

lemma no_at_shipped: "\<not> contains ''We shipped features.'' '' at ''"
  by code_simp

lemma at_acme: "contains ''I worked at Acme Corp (NYC)'' '' at ''"
  by code_simp

lemma acme_example:
  assumes "sent_text s1 = ''I worked at Acme Corp (NYC)''"
    and "sent_text s2 = ''We shipped features.''"
    and "has_org s2"
    and "sents d = [s1, s2]"
  shows "extract_companies d = [''Acme Corp'']"
proof -
  have n1: "next_company None s1 = Some ''Acme Corp''"
    using assms(1) at_acme company_of_acme by (simp add: next_company_def)
  have n2: "next_company (Some ''Acme Corp'') s2 = Some ''Acme Corp''"
    using assms(2) no_at_shipped by (simp add: next_company_def)
  have "set (companies_loop None [] (sents d)) = {''Acme Corp''}"
    using assms(3,4) n1 n2 by (auto simp: appended_def)
  then show ?thesis
    by (simp add: extract_companies_def list_of_set_single)
qed


lemma no_at_org_only: "\<not> contains ''Google builds things.'' '' at ''"
  by code_simp

lemma company_of_paren: "company_of ''Engineer at (Acme Corp)'' = []"
  by code_simp

lemma at_paren: "contains ''Engineer at (Acme Corp)'' '' at ''"
  by code_simp

text \<open>
  C9. When no sentence of the document contains " at ", the companies are the empty list,
  whatever ORG entities the sentences hold.
\<close>

theorem companies_empty_without_at:
  assumes "\<forall>s\<in>set (sents d). \<not> contains (sent_text s) '' at ''"
  shows "extract_companies d = []"
  using companies_loop_no_at[OF assms, of "[]"]
  by (simp add: extract_companies_def list_of_set_def)

theorem companies_empty_without_at_witness:
  "list_all (\<lambda>s. \<not> contains (sent_text s) '' at '') (sents doc_org_only) \<and>
   list_ex has_org (sents doc_org_only) \<and>
   extract_companies doc_org_only = []"
  using companies_empty_without_at[of doc_org_only] no_at_org_only
  by (simp add: doc_org_only_def doc_of_sents_def has_org_def ent_def)

text \<open>
  C7, the claim as stated fails: in the one sentence "Engineer at (Acme Corp)" the text
  after " at " starts with the parenthesis, so the current company is set to the empty
  string; the sentence holds an ORG entity, and nothing is appended.
\<close>

theorem empty_company_not_appended:
  "list_all has_org (sents doc_paren) \<and>
   current_company (sents doc_paren) = Some [] \<and>
   extract_companies doc_paren = []"
  using company_of_paren at_paren
  by (simp add: doc_paren_def doc_of_sents_def has_org_def ent_def current_company_def
        next_company_def extract_companies_def appended_def list_of_set_def)

lemma split_overlap: "split ''We met at at Acme'' '' at '' = [''We met'', ''at Acme'']"
  by code_simp

lemma pieces_overlap:
  "[''We met'', ''at Acme''] \<noteq> [] \<and>
   join '' at '' [''We met'', ''at Acme''] = ''We met at at Acme'' \<and>
   list_all (\<lambda>p. \<not> contains (p @ '' at'') '' at '') (butlast [''We met'', ''at Acme'']) \<and>
   \<not> contains (last [''We met'', ''at Acme'']) '' at ''"
  by code_simp

lemma at_overlap: "contains ''We met at at Acme'' '' at ''"
  by code_simp

lemma trim_overlap: "strip (takeWhile (\<lambda>c. c \<noteq> CHR ''('') ''at Acme'') = ''at Acme''"
  by code_simp

lemma at_nbsp: "contains (''Engineer at Acme'' @ [CHR 0xA0] @ ''(NYC)'') '' at ''"
  by code_simp

lemma trim_nbsp:
  "strip (takeWhile (\<lambda>c. c \<noteq> CHR ''('')
            (last (split (''Engineer at Acme'' @ [CHR 0xA0] @ ''(NYC)'') '' at ''))) = ''Acme''"
  by code_simp

lemma trim_acme:
  "strip (takeWhile (\<lambda>c. c \<noteq> CHR ''('') (last (split ''I worked at Acme Corp (NYC)'' '' at '')))
     = ''Acme Corp''"
  by code_simp

text \<open>
  C7, amended. For the two sentences "I worked at Acme Corp (NYC)" and
  "We shipped features.", the second with an ORG entity, the companies are
  ["Acme Corp"]. In general a sentence that contains " at " sets the current company to
  the last of the pieces into which the sentence is cut at " at ", cut before the first
  "(" and trimmed of white space; the pieces are found from left to right without
  overlap (each cut is at the first " at " of what is left), so that the last piece
  follows an " at " and holds none, and "We met at at Acme" gives "at Acme". A sentence
  without " at " leaves the current company as it was. The result holds, once each,
  exactly the non-empty values the current company has at the sentences with an ORG
  entity.
\<close>

theorem companies_rule:
  "(sent_text s1 = ''I worked at Acme Corp (NYC)'' \<and> sent_text s2 = ''We shipped features.'' \<and>
    has_org s2 \<and> sents d = [s1, s2] \<longrightarrow> extract_companies d = [''Acme Corp'']) \<and>
   (contains (sent_text s) '' at '' \<longrightarrow>
      next_company cur s
        = Some (strip (takeWhile (\<lambda>c. c \<noteq> CHR ''('') (last (split (sent_text s) '' at '')))) \<and>
      (\<exists>pre. sent_text s = pre @ '' at '' @ last (split (sent_text s) '' at '')) \<and>
      \<not> contains (last (split (sent_text s) '' at '')) '' at '') \<and>
   (split t '' at '' = ps \<longleftrightarrow>
      ps \<noteq> [] \<and> join '' at '' ps = t \<and>
      list_all (\<lambda>p. \<not> contains (p @ '' at'') '' at '') (butlast ps) \<and>
      \<not> contains (last ps) '' at '') \<and>
   (\<not> contains (sent_text s) '' at '' \<longrightarrow> next_company cur s = cur) \<and>
   set (extract_companies d') =
     {c. c \<noteq> [] \<and> (\<exists>i<length (sents d'). has_org (sents d' ! i) \<and>
                         current_company (take (Suc i) (sents d')) = Some c)} \<and>
   distinct (extract_companies d')"
proof (intro conjI impI)
  assume "sent_text s1 = ''I worked at Acme Corp (NYC)'' \<and> sent_text s2 = ''We shipped features.'' \<and>
    has_org s2 \<and> sents d = [s1, s2]"
  then show "extract_companies d = [''Acme Corp'']"
    using acme_example by blast
next
  assume at: "contains (sent_text s) '' at ''"
  show "next_company cur s
      = Some (strip (takeWhile (\<lambda>c. c \<noteq> CHR ''('') (last (split (sent_text s) '' at ''))))"
    using at by (simp add: next_company_def company_of_takeWhile)
  show "\<exists>pre. sent_text s = pre @ '' at '' @ last (split (sent_text s) '' at '')"
    using split_at_last[OF at] by blast
  show "\<not> contains (last (split (sent_text s) '' at '')) '' at ''"
    using split_at_last[OF at] by blast
next
  have "split t '' at '' = ps \<longleftrightarrow> pieces '' at '' t ps"
    by (rule split_iff) simp
  then show "split t '' at '' = ps \<longleftrightarrow>
      ps \<noteq> [] \<and> join '' at '' ps = t \<and>
      list_all (\<lambda>p. \<not> contains (p @ '' at'') '' at '') (butlast ps) \<and>
      \<not> contains (last ps) '' at ''"
    by (simp add: pieces_def)
next
  assume "\<not> contains (sent_text s) '' at ''"
  then show "next_company cur s = cur"
    by (simp add: next_company_def)
next
  show "set (extract_companies d') =
     {c. c \<noteq> [] \<and> (\<exists>i<length (sents d'). has_org (sents d' ! i) \<and>
                         current_company (take (Suc i) (sents d')) = Some c)}"
    by (simp add: extract_companies_def set_list_of_set companies_loop_set current_company_def)
next
  show "distinct (extract_companies d')"
    by (simp add: extract_companies_def distinct_list_of_set)
qed

theorem companies_rule_witness:
  "sent_text acme_s1 = ''I worked at Acme Corp (NYC)'' \<and> sent_text acme_s2 = ''We shipped features.'' \<and>
   has_org acme_s2 \<and> sents (doc_of_sents [acme_s1, acme_s2]) = [acme_s1, acme_s2] \<and>
   extract_companies (doc_of_sents [acme_s1, acme_s2]) = [''Acme Corp''] \<and>
   contains (sent_text acme_s1) '' at '' \<and>
   next_company None acme_s1 = Some ''Acme Corp'' \<and>
   \<not> contains (sent_text acme_s2) '' at '' \<and>
   next_company (Some ''Acme Corp'') acme_s2 = Some ''Acme Corp'' \<and>
   contains (sent_text overlap_s) '' at '' \<and>
   split (sent_text overlap_s) '' at '' = [''We met'', ''at Acme''] \<and>
   next_company None overlap_s = Some ''at Acme'' \<and>
   contains (sent_text nbsp_s) '' at '' \<and>
   next_company None nbsp_s = Some ''Acme''"
proof -
  let ?d = "doc_of_sents [acme_s1, acme_s2]"
  have t1: "sent_text acme_s1 = ''I worked at Acme Corp (NYC)''" by (simp add: acme_s1_def)
  have t2: "sent_text acme_s2 = ''We shipped features.''" by (simp add: acme_s2_def)
  have t3: "sent_text overlap_s = ''We met at at Acme''" by (simp add: overlap_s_def)
  have t4: "sent_text nbsp_s = ''Engineer at Acme'' @ [CHR 0xA0] @ ''(NYC)''"
    by (simp add: nbsp_s_def)
  have o: "has_org acme_s2" by (simp add: acme_s2_def has_org_def ent_def)
  have ss: "sents ?d = [acme_s1, acme_s2]" by (simp add: doc_of_sents_def)
  have a1: "contains (sent_text acme_s1) '' at ''" unfolding t1 by (rule at_acme)
  have a2: "\<not> contains (sent_text acme_s2) '' at ''" unfolding t2 by (rule no_at_shipped)
  have a3: "contains (sent_text overlap_s) '' at ''" unfolding t3 by (rule at_overlap)
  have a4: "contains (sent_text nbsp_s) '' at ''" unfolding t4 by (rule at_nbsp)
  note A = companies_rule[of acme_s1 acme_s2 ?d acme_s1 None "sent_text overlap_s"
      "[''We met'', ''at Acme'']" ?d]
  note B = companies_rule[of acme_s1 acme_s2 ?d acme_s2 "Some ''Acme Corp''"
      "sent_text overlap_s" "[''We met'', ''at Acme'']" ?d]
  note C = companies_rule[of acme_s1 acme_s2 ?d overlap_s None "sent_text overlap_s"
      "[''We met'', ''at Acme'']" ?d]
  note D = companies_rule[of acme_s1 acme_s2 ?d nbsp_s None "sent_text overlap_s"
      "[''We met'', ''at Acme'']" ?d]
  have e: "extract_companies ?d = [''Acme Corp'']"
    using A t1 t2 o ss by blast
  have n1: "next_company None acme_s1
      = Some (strip (takeWhile (\<lambda>c. c \<noteq> CHR ''('') (last (split (sent_text acme_s1) '' at ''))))"
    using A a1 by blast
  have n2: "next_company (Some ''Acme Corp'') acme_s2 = Some ''Acme Corp''"
    using B a2 by blast
  have sp: "split (sent_text overlap_s) '' at '' = [''We met'', ''at Acme'']"
    using C pieces_overlap unfolding t3 by blast
  have n3: "next_company None overlap_s
      = Some (strip (takeWhile (\<lambda>c. c \<noteq> CHR ''('') (last (split (sent_text overlap_s) '' at ''))))"
    using C a3 by blast
  have n4: "next_company None nbsp_s
      = Some (strip (takeWhile (\<lambda>c. c \<noteq> CHR ''('') (last (split (sent_text nbsp_s) '' at ''))))"
    using D a4 by blast
  have v1: "next_company None acme_s1 = Some ''Acme Corp''"
    unfolding n1 t1 by (simp only: trim_acme)
  have l: "last [''We met'', ''at Acme''] = ''at Acme''" by simp
  have v3: "next_company None overlap_s = Some ''at Acme''"
    unfolding n3 sp l by (simp only: trim_overlap)
  have v4: "next_company None nbsp_s = Some ''Acme''"
    unfolding n4 t4 by (simp only: trim_nbsp)
  show ?thesis
    using t1 t2 o ss e a1 v1 a2 n2 a3 sp v3 a4 v4 by simp
qed

subsection \<open>Certifications, tools and skills\<close>

text \<open>
  C8. The certifications are the texts of the entities labelled CERTIFICATION, each
  once, and the tools those of the entities labelled TOOL; the skills include the text
  of every entity labelled TECH. For the entities ("AWS", TECH),
  ("Certified Solutions", CERTIFICATION) and ("Docker", TOOL), the skills contain "AWS",
  the certifications are ["Certified Solutions"] and the tools are ["Docker"].
\<close>

theorem entity_fields:
  "set (extract_certifications d) = ent_text ` {e \<in> set (ents d). ent_label e = ''CERTIFICATION''} \<and>
   distinct (extract_certifications d) \<and>
   set (extract_tools d) = ent_text ` {e \<in> set (ents d). ent_label e = ''TOOL''} \<and>
   distinct (extract_tools d) \<and>
   ent_text ` {e \<in> set (ents d). ent_label e = ''TECH''} \<subseteq> set (extract_skills d) \<and>
   ((\<lambda>e. (ent_text e, ent_label e)) ` set (ents d') =
       {(''AWS'', ''TECH''), (''Certified Solutions'', ''CERTIFICATION''), (''Docker'', ''TOOL'')} \<longrightarrow>
     ''AWS'' \<in> set (extract_skills d') \<and>
     extract_certifications d' = [''Certified Solutions''] \<and>
     extract_tools d' = [''Docker''])"
proof (intro conjI impI)
  show "set (extract_certifications d) = ent_text ` {e \<in> set (ents d). ent_label e = ''CERTIFICATION''}"
    by (auto simp: extract_certifications_def set_list_of_set)
  show "distinct (extract_certifications d)"
    by (simp add: extract_certifications_def distinct_list_of_set)
  show "set (extract_tools d) = ent_text ` {e \<in> set (ents d). ent_label e = ''TOOL''}"
    by (auto simp: extract_tools_def set_list_of_set)
  show "distinct (extract_tools d)"
    by (simp add: extract_tools_def distinct_list_of_set)
  show "ent_text ` {e \<in> set (ents d). ent_label e = ''TECH''} \<subseteq> set (extract_skills d)"
    by (auto simp: extract_skills_def set_list_of_set)
next
  assume a: "(\<lambda>e. (ent_text e, ent_label e)) ` set (ents d') =
       {(''AWS'', ''TECH''), (''Certified Solutions'', ''CERTIFICATION''), (''Docker'', ''TOOL'')}"
  have sel: "\<And>l. ent_text ` {e \<in> set (ents d'). ent_label e = l}
              = {t. (t, l) \<in> (\<lambda>e. (ent_text e, ent_label e)) ` set (ents d')}"
    by force
  have "ent_text ` {e \<in> set (ents d'). ent_label e = ''TECH''} = {''AWS''}"
    unfolding sel a by auto
  then show "''AWS'' \<in> set (extract_skills d')"
    by (auto simp: extract_skills_def set_list_of_set)
  have "ent_text ` {e \<in> set (ents d'). ent_label e = ''CERTIFICATION''} = {''Certified Solutions''}"
    unfolding sel a by auto
  then have "set (map ent_text (filter (\<lambda>e. ent_label e = ''CERTIFICATION'') (ents d'))) = {''Certified Solutions''}"
    by (simp add: Collect_conj_eq Int_commute)
  then show "extract_certifications d' = [''Certified Solutions'']"
    unfolding extract_certifications_def by (rule list_of_set_single)
  have "ent_text ` {e \<in> set (ents d'). ent_label e = ''TOOL''} = {''Docker''}"
    unfolding sel a by auto
  then have "set (map ent_text (filter (\<lambda>e. ent_label e = ''TOOL'') (ents d'))) = {''Docker''}"
    by (simp add: Collect_conj_eq Int_commute)
  then show "extract_tools d' = [''Docker'']"
    unfolding extract_tools_def by (rule list_of_set_single)
qed

theorem entity_fields_witness:
  "(\<lambda>e. (ent_text e, ent_label e)) ` set (ents doc_c8) =
       {(''AWS'', ''TECH''), (''Certified Solutions'', ''CERTIFICATION''), (''Docker'', ''TOOL'')} \<and>
   ''AWS'' \<in> set (extract_skills doc_c8) \<and>
   extract_certifications doc_c8 = [''Certified Solutions''] \<and>
   extract_tools doc_c8 = [''Docker'']"
proof -
  have a: "(\<lambda>e. (ent_text e, ent_label e)) ` set (ents doc_c8) =
       {(''AWS'', ''TECH''), (''Certified Solutions'', ''CERTIFICATION''), (''Docker'', ''TOOL'')}"
    by (simp add: doc_c8_def doc_of_ents_def ent_def)
  show ?thesis
    using entity_fields[of doc_c8 doc_c8] a by blast
qed

subsection \<open>The record of one document\<close>

lemma experience_doc_cv: "calculate_experience dp_example doc_cv = Inr 0"
  by (simp add: calculate_experience_def doc_cv_def ent_def)

lemma skills_doc_cv: "extract_skills doc_cv = [''Python'', ''AWS'']"
  by (simp add: extract_skills_def doc_cv_def ent_def list_of_set_def)

lemma no_at_initech: "\<not> contains ''We shipped features with Initech.'' '' at ''"
  by code_simp

lemma companies_doc_cv: "extract_companies doc_cv = [''Acme Corp'']"
  using at_acme company_of_acme no_at_initech
  by (simp add: extract_companies_def doc_cv_def ent_def list_of_set_def next_company_def
        appended_def has_org_def)

lemma positions_doc_cv: "extract_positions doc_cv = [''Engineer'']"
  by (simp add: extract_positions_def doc_cv_def ent_def list_of_set_def is_position_def)

lemma certifications_doc_cv: "extract_certifications doc_cv = [''Certified Solutions'']"
  by (simp add: extract_certifications_def doc_cv_def ent_def list_of_set_def)

lemma tools_doc_cv: "extract_tools doc_cv = [''Docker'']"
  by (simp add: extract_tools_def doc_cv_def ent_def list_of_set_def)

lemmas doc_cv_fields = experience_doc_cv skills_doc_cv companies_doc_cv positions_doc_cv
  certifications_doc_cv tools_doc_cv

lemma parse_ok: "parse_resume env_example ''in/ok.PDF'' = Inr resume_ok"
  by (simp add: parse_resume_def extract_text_def env_example_def doc_cv_fields
        summary_text_c6 education_text_c6 resume_ok_def)

lemma education_dup_text:
  "extract_education (join [nl] pages_dup) = [''BS'', ''BS'']"
  unfolding extract_education_scan by code_simp

text \<open>
  C1, the claim as stated fails: for a text with the education section "BS", "BS" the
  education field lists the line twice.
\<close>

theorem education_duplicates:
  "\<not> isl (parse_resume env_example ''in/dup.pdf'') \<and>
   education (projr (parse_resume env_example ''in/dup.pdf'')) = [''BS'', ''BS''] \<and>
   \<not> distinct (education (projr (parse_resume env_example ''in/dup.pdf'')))"
  by (simp add: parse_resume_def extract_text_def env_example_def doc_cv_fields
        education_dup_text)

text \<open>
  C1, amended. For every parsed document, each of the fields skills, companies,
  positions, certifications and tools holds no string twice. (The education field is the
  list of the lines of the section and is left as it is.)
\<close>

theorem set_fields_distinct:
  assumes "parse_resume E pdf_path = Inr r"
  shows "distinct (skills r) \<and> distinct (companies r) \<and> distinct (positions r) \<and>
         distinct (certifications r) \<and> distinct (tools r)"
  using assms
  by (auto simp: parse_resume_def extract_skills_def extract_companies_def
        extract_positions_def extract_certifications_def extract_tools_def
        distinct_list_of_set
      split: sum.splits)

theorem set_fields_distinct_witness:
  "parse_resume env_example ''in/ok.PDF'' = Inr resume_ok \<and>
   distinct (skills resume_ok) \<and> distinct (companies resume_ok) \<and>
   distinct (positions resume_ok) \<and> distinct (certifications resume_ok) \<and>
   distinct (tools resume_ok)"
  using set_fields_distinct[OF parse_ok] parse_ok by simp

subsection \<open>Summary\<close>

lemma summary_match_here_None: "summary_match_here s = None \<longleftrightarrow> \<not> keyword_at s"
  by (simp add: summary_match_here_def keyword_at_def)

lemma summary_search_absent:
  "(\<And>p q. s = p @ q \<Longrightarrow> \<not> keyword_at q) \<Longrightarrow> summary_search s = None"
proof (induction s)
  case Nil
  then show ?case by simp
next
  case (Cons c cs)
  have "\<not> keyword_at (c # cs)" using Cons.prems[of "[]"] by simp
  then have here: "summary_match_here (c # cs) = None"
    by (simp add: summary_match_here_None)
  have "summary_search cs = None"
  proof (rule Cons.IH)
    fix p q assume "cs = p @ q"
    then show "\<not> keyword_at q" using Cons.prems[of "c # p" q] by simp
  qed
  then show ?case using here by simp
qed

lemma keyword_at_Nil: "\<not> keyword_at []"
  by (simp add: keyword_at_def ci_prefix_def lower_def)

lemma summary_search_first:
  assumes "keyword_at q"
    and "\<And>p' q'. p @ q = p' @ q' \<Longrightarrow> length p' < length p \<Longrightarrow> \<not> keyword_at q'"
  shows "summary_search (p @ q) = summary_match_here q"
  using assms(2)
proof (induction p)
  case Nil
  obtain c cs where q: "q = c # cs" using assms(1) keyword_at_Nil by (cases q) auto
  have "summary_match_here q \<noteq> None" using assms(1) by (simp add: summary_match_here_None)
  then show ?case using q by (auto split: option.splits)
next
  case (Cons a p)
  have "\<not> keyword_at (a # p @ q)" using Cons.prems[of "[]"] by simp
  then have "summary_match_here (a # p @ q) = None"
    by (simp add: summary_match_here_None)
  then have "summary_search ((a # p) @ q) = summary_search (p @ q)"
    by simp
  moreover have "summary_search (p @ q) = summary_match_here q"
  proof (rule Cons.IH)
    fix p' q' assume "p @ q = p' @ q'" "length p' < length p"
    then show "\<not> keyword_at q'" using Cons.prems[of "a # p'" q'] by simp
  qed
  ultimately show ?case by simp
qed

lemma length_lower: "length (lower s) = length s"
  by (simp add: lower_def)

lemma lower_append: "lower (a @ b) = lower a @ lower b"
  by (simp add: lower_def)

lemma lower_summary: "lower ''summary'' = ''summary''"
  by code_simp

lemma lower_objective: "lower ''objective'' = ''objective''"
  by code_simp

lemma match_summary:
  assumes "lower k = ''summary''"
  shows "summary_match_here (k @ r) = Some (lazy_capture (dropWhile is_space (skip_colon r)))"
proof -
  have "length k = 7" using length_lower[of k] assms by simp
  then show ?thesis
    using assms by (simp add: summary_match_here_def ci_prefix_def lower_append lower_summary)
qed

lemma match_objective:
  assumes "lower k = ''objective''"
  shows "summary_match_here (k @ r) = Some (lazy_capture (dropWhile is_space (skip_colon r)))"
proof -
  have "length k = 9" using length_lower[of k] assms by simp
  then show ?thesis
    using assms
    by (simp add: summary_match_here_def ci_prefix_def lower_append lower_summary lower_objective)
qed

lemma keyword_at_append:
  "lower k \<in> {''summary'', ''objective''} \<Longrightarrow> keyword_at (k @ r)"
  by (auto simp: keyword_at_def ci_prefix_def lower_append lower_summary lower_objective)

lemma lazy_capture_end: "\<exists>rest. s = lazy_capture s @ rest \<and> section_end rest"
  by (induction s) (auto simp: section_end_def at_dollar_def)

lemma lazy_capture_shortest:
  "s = a @ t \<Longrightarrow> length a < length (lazy_capture s) \<Longrightarrow> \<not> section_end t"
proof (induction s arbitrary: a)
  case Nil
  then show ?case by simp
next
  case (Cons c cs)
  show ?case
  proof (cases "section_end (c # cs)")
    case True
    then have "lazy_capture (c # cs) = []" by simp
    then show ?thesis using Cons.prems(2) by simp
  next
    case False
    show ?thesis
    proof (cases a)
      case Nil
      then show ?thesis using False Cons.prems by simp
    next
      case (Cons x a')
      then show ?thesis using False Cons.prems Cons.IH[of a'] by simp
    qed
  qed
qed

lemma label_ahead_iff:
  "label_ahead t \<longleftrightarrow>
     (\<exists>w u. t = nl # w @ CHR '':'' # u \<and> w \<noteq> [] \<and> list_all is_word w)"
proof
  assume "label_ahead t"
  then obtain r where t: "t = nl # r" and w: "takeWhile is_word r \<noteq> []"
    and d: "case dropWhile is_word r of [] \<Rightarrow> False | d # _ \<Rightarrow> d = CHR '':''"
    by (cases t) (auto simp: label_ahead_def)
  from d obtain u where u: "dropWhile is_word r = CHR '':'' # u"
    by (cases "dropWhile is_word r") auto
  have "r = takeWhile is_word r @ CHR '':'' # u"
    using takeWhile_dropWhile_id[of is_word r] u by simp
  moreover have "list_all is_word (takeWhile is_word r)"
    by (simp add: list_all_iff) (meson set_takeWhileD)
  ultimately show "\<exists>w u. t = nl # w @ CHR '':'' # u \<and> w \<noteq> [] \<and> list_all is_word w"
    using t w by blast
next
  assume "\<exists>w u. t = nl # w @ CHR '':'' # u \<and> w \<noteq> [] \<and> list_all is_word w"
  then obtain w u where t: "t = nl # w @ CHR '':'' # u" and w: "w \<noteq> []" "list_all is_word w"
    by blast
  have nw: "\<not> is_word CHR '':''" by (simp add: is_word_def)
  have "takeWhile is_word (w @ CHR '':'' # u) = w"
    using w(2) nw by (simp add: takeWhile_append2 list_all_iff)
  moreover have "dropWhile is_word (w @ CHR '':'' # u) = CHR '':'' # u"
    using w(2) nw by (simp add: dropWhile_append2 list_all_iff)
  ultimately show "label_ahead t"
    using t w(1) by (simp add: label_ahead_def)
qed

lemma no_keyword_plain: "list_all (\<lambda>q. \<not> keyword_at q) (suffixes text_plain)"
  by code_simp

lemma no_keyword_early: "list_all (\<lambda>q. \<not> keyword_at q) [text_mid, tl text_mid]"
  by code_simp

lemma capture_mid: "strip (lazy_capture (dropWhile is_space (skip_colon '' of work''))) = ''of work''"
  by code_simp

lemma capture_nbsp:
  "strip (lazy_capture (dropWhile is_space (skip_colon rest_nbsp))) = ''Built it''"
  by code_simp

lemma lower_Summary: "lower ''Summary'' = ''summary''"
  by code_simp

text \<open>
  C5, the claim as stated fails: no line of "A summary of work" begins with "summary:"
  or "objective:", and the summary is "of work", not the empty string.
\<close>

theorem summary_without_header_line:
  "\<not> has_header_line text_mid \<and> extract_summary text_mid = ''of work''"
  unfolding extract_summary_scan by code_simp

text \<open>
  C5, amended. The summary is taken at the first place in the text, anywhere in a line,
  where "summary" or "objective" stands in any case. When there is no such place the
  summary is empty. Otherwise a colon, if one follows, and the white space after it
  (newlines too) are passed over, and the summary is the text from there up to the first
  position where the rest is empty, is a last newline, or is a newline followed by word
  characters and a colon; it is returned trimmed.
\<close>

theorem summary_rule:
  "((\<forall>p q. text = p @ q \<longrightarrow> \<not> keyword_at q) \<longrightarrow> extract_summary text = []) \<and>
   (text = p @ k @ r \<and> lower k \<in> {''summary'', ''objective''} \<and>
    (\<forall>p' q'. text = p' @ q' \<and> length p' < length p \<longrightarrow> \<not> keyword_at q') \<longrightarrow>
      extract_summary text = strip (lazy_capture (dropWhile is_space (skip_colon r)))) \<and>
   (\<exists>rest. s = lazy_capture s @ rest \<and> section_end rest \<and>
      (\<forall>a t. s = a @ t \<and> length a < length (lazy_capture s) \<longrightarrow> \<not> section_end t)) \<and>
   (section_end t \<longleftrightarrow>
      t = [] \<or> t = [nl] \<or> (\<exists>w u. t = nl # w @ CHR '':'' # u \<and> w \<noteq> [] \<and> list_all is_word w))"
proof (intro conjI impI)
  assume "\<forall>p q. text = p @ q \<longrightarrow> \<not> keyword_at q"
  then have "summary_search text = None"
    by (intro summary_search_absent) blast
  then show "extract_summary text = []"
    by (simp add: extract_summary_scan)
next
  assume a: "text = p @ k @ r \<and> lower k \<in> {''summary'', ''objective''} \<and>
    (\<forall>p' q'. text = p' @ q' \<and> length p' < length p \<longrightarrow> \<not> keyword_at q')"
  then have kw: "keyword_at (k @ r)" by (simp add: keyword_at_append)
  have "summary_search (p @ k @ r) = summary_match_here (k @ r)"
    using a by (intro summary_search_first[OF kw]) blast
  moreover have "summary_match_here (k @ r)
      = Some (lazy_capture (dropWhile is_space (skip_colon r)))"
    using a match_summary match_objective by blast
  ultimately show "extract_summary text = strip (lazy_capture (dropWhile is_space (skip_colon r)))"
    using a by (simp add: extract_summary_scan)
next
  show "\<exists>rest. s = lazy_capture s @ rest \<and> section_end rest \<and>
      (\<forall>a t. s = a @ t \<and> length a < length (lazy_capture s) \<longrightarrow> \<not> section_end t)"
    using lazy_capture_end[of s] lazy_capture_shortest[of s] by blast
next
  show "section_end t \<longleftrightarrow>
      t = [] \<or> t = [nl] \<or> (\<exists>w u. t = nl # w @ CHR '':'' # u \<and> w \<noteq> [] \<and> list_all is_word w)"
    using label_ahead_iff[of t] unfolding section_end_def at_dollar_def by blast
qed

theorem summary_rule_witness:
  "list_all (\<lambda>q. \<not> keyword_at q) (suffixes text_plain) \<and>
   extract_summary text_plain = [] \<and>
   text_mid = ''A '' @ ''summary'' @ '' of work'' \<and>
   lower ''summary'' \<in> {''summary'', ''objective''} \<and>
   list_all (\<lambda>q. \<not> keyword_at q) [text_mid, tl text_mid] \<and>
   extract_summary text_mid = ''of work'' \<and>
   text_nbsp = [] @ ''Summary'' @ rest_nbsp \<and>
   lower ''Summary'' \<in> {''summary'', ''objective''} \<and>
   extract_summary text_nbsp = ''Built it''"
proof -
  have h1: "\<forall>p q. text_plain = p @ q \<longrightarrow> \<not> keyword_at q"
  proof (intro allI impI)
    fix p q assume "text_plain = p @ q"
    then have "q \<in> set (suffixes text_plain)" by (auto simp: suffix_def)
    then show "\<not> keyword_at q" using no_keyword_plain by (simp add: list_all_iff)
  qed
  have t: "text_mid = ''A '' @ ''summary'' @ '' of work''" by (simp add: text_mid_def)
  have h2: "\<forall>p' q'. text_mid = p' @ q' \<and> length p' < length ''A '' \<longrightarrow> \<not> keyword_at q'"
  proof (intro allI impI)
    fix p' q' assume a: "text_mid = p' @ q' \<and> length p' < length ''A ''"
    then have "p' = [] \<or> (\<exists>x. p' = [x])"
      by (cases p'; cases "tl p'") auto
    then have "q' = text_mid \<or> q' = tl text_mid"
    proof
      assume "p' = []"
      then show ?thesis using a by simp
    next
      assume "\<exists>x. p' = [x]"
      then obtain x where "p' = [x]" by blast
      then have "text_mid = x # q'" using a by simp
      then show ?thesis by (metis list.sel(3))
    qed
    then show "\<not> keyword_at q'" using no_keyword_early by auto
  qed
  have l: "lower ''summary'' \<in> {''summary'', ''objective''}" by (simp add: lower_summary)
  have t3: "text_nbsp = [] @ ''Summary'' @ rest_nbsp" by (simp add: text_nbsp_def)
  have l3: "lower ''Summary'' \<in> {''summary'', ''objective''}" by (simp add: lower_Summary)
  have h3: "\<forall>p' q'. text_nbsp = p' @ q' \<and> length p' < length ([] :: string) \<longrightarrow> \<not> keyword_at q'"
    by simp
  note N = summary_rule[of text_nbsp "[]" "''Summary''" rest_nbsp "[]" "[]"]
  have "extract_summary text_nbsp
      = strip (lazy_capture (dropWhile is_space (skip_colon rest_nbsp)))"
    using N t3 l3 h3 by blast
  then have e3: "extract_summary text_nbsp = ''Built it''"
    by (simp only: capture_nbsp)
  have rest: "list_all (\<lambda>q. \<not> keyword_at q) (suffixes text_plain) \<and>
   extract_summary text_plain = [] \<and>
   text_mid = ''A '' @ ''summary'' @ '' of work'' \<and>
   lower ''summary'' \<in> {''summary'', ''objective''} \<and>
   list_all (\<lambda>q. \<not> keyword_at q) [text_mid, tl text_mid] \<and>
   extract_summary text_mid = ''of work''"
    using summary_rule[of text_plain p k r s t for p k r s t] h1
          summary_rule[of text_mid "''A ''" "''summary''" "'' of work''" s t for s t] h2 t l
          no_keyword_plain no_keyword_early capture_mid
    by simp
  show ?thesis
    using rest t3 l3 e3 by blast
qed

subsection \<open>The batch driver\<close>

lemma process_files_append:
  "process_files E i out (xs @ ys) w = process_files E i out ys (process_files E i out xs w)"
  by (induction xs arbitrary: w) simp_all

lemma stdout_process_file:
  "stdout (process_file E i out f w) =
     stdout w @ (case file_error E i out f of None \<Rightarrow> [] | Some e \<Rightarrow> [error_line f e])"
  by (auto simp: process_file_def file_error_def print_def write_file_def
      split: sum.splits option.splits prod.splits)

lemma stdout_process_files:
  "stdout (process_files E i out files w) =
     stdout w @ map (\<lambda>f. error_line f (the (file_error E i out f)))
                    (filter (\<lambda>f. file_error E i out f \<noteq> None) files)"
  by (induction files arbitrary: w) (auto simp: stdout_process_file)

lemma fs_process_file_other:
  "p \<noteq> output_file out f \<Longrightarrow> fs (process_file E i out f w) p = fs w p"
  by (simp add: process_file_def print_def write_file_def
      split: sum.splits option.splits prod.splits)

lemma fs_process_file_failed:
  "\<not> endswith (lower f) ''.pdf'' \<or> isl (parse_resume E (path_join i f)) \<or>
   open_fails E (output_file out f) \<noteq> None \<Longrightarrow> fs (process_file E i out f w) = fs w"
  by (auto simp: process_file_def print_def write_file_def isl_def
      split: sum.splits option.splits prod.splits)

lemma fs_process_files_other:
  "(\<And>f. f \<in> set files \<Longrightarrow> p \<noteq> output_file out f) \<Longrightarrow>
   fs (process_files E i out files w) p = fs w p"
  by (induction files arbitrary: w) (simp_all add: fs_process_file_other)

lemma ticks_process_file: "ticks (process_file E i out f w) = ticks w"
  by (simp add: process_file_def print_def write_file_def
      split: sum.splits option.splits prod.splits)

lemma ticks_process_files: "ticks (process_files E i out files w) = ticks w"
  by (induction files arbitrary: w) (simp_all add: ticks_process_file)

lemma error_line_contains:
  "contains (error_line f e) f \<and> contains (error_line f e) (str_of_error e)"
proof -
  have "error_line f e = ''Error processing '' @ f @ ('': '' @ str_of_error e)"
    by (simp add: error_line_def)
  moreover have "error_line f e = (''Error processing '' @ f @ '': '') @ str_of_error e @ []"
    by (simp add: error_line_def)
  ultimately show ?thesis
    unfolding contains_iff by blast
qed

lemma output_file_last: "last (output_file out f) = CHR ''n''"
  by (simp add: output_file_def path_join_def)

lemma log_last: "endswith p ''.log'' \<Longrightarrow> last p = CHR ''g''"
  by (auto simp: endswith_def suffix_def)

lemma log_not_output: "endswith p ''.log'' \<Longrightarrow> p \<noteq> output_file out f"
  using output_file_last[of out f] log_last[of p] by auto


lemma lower_names:
  "lower ''bad.pdf'' = ''bad.pdf''" "lower ''notes.txt'' = ''notes.txt''"
  "lower ''ok.PDF'' = ''ok.pdf''" "lower ''full.pdf'' = ''full.pdf''"
  "lower ''locked.pdf'' = ''locked.pdf''"
  by code_simp+

lemma endswith_names:
  "endswith ''bad.pdf'' ''.pdf''" "\<not> endswith ''notes.txt'' ''.pdf''"
  "endswith ''ok.pdf'' ''.pdf''" "endswith ''full.pdf'' ''.pdf''"
  "endswith ''locked.pdf'' ''.pdf''"
  by code_simp+

lemma output_names:
  "output_file ''out'' ''bad.pdf'' = ''out/bad.json''"
  "output_file ''out'' ''ok.PDF'' = ''out/ok.json''"
  "output_file ''out'' ''full.pdf'' = ''out/full.json''"
  "output_file ''out'' ''locked.pdf'' = ''out/locked.json''"
  "output_file ''out'' ''notes.txt'' = ''out/notes.json''"
  by code_simp+

lemma input_names:
  "path_join ''in'' ''bad.pdf'' = ''in/bad.pdf''"
  "path_join ''in'' ''ok.PDF'' = ''in/ok.PDF''"
  "path_join ''in'' ''full.pdf'' = ''in/full.pdf''"
  by code_simp+

lemma parse_bad: "parse_resume env_example ''in/bad.pdf'' = Inl (Raised ''No /Root object'')"
  by (simp add: parse_resume_def extract_text_def env_example_def)

lemma env_example_io:
  "open_fails env_example p
     = (if p = ''out/locked.json'' then Some (Raised ''Permission denied'') else None)"
  "write_fails env_example p
     = (if p = ''out/full.json'' then Some (Raised ''No space left on device'', []) else None)"
  "json_dump env_example r = ''{summary: '' @ summary r @ ''}''"
  "makedirs_fails env_example p = None"
  "listdir env_example ''in'' = Inr [''bad.pdf'', ''notes.txt'', ''ok.PDF'']"
  by (simp_all add: env_example_def)

lemma parse_full: "\<exists>r. parse_resume env_example ''in/full.pdf'' = Inr r"
  by (simp add: parse_resume_def extract_text_def env_example_def doc_cv_fields)

lemma file_error_bad:
  "file_error env_example ''in'' ''out'' ''bad.pdf'' = Some (Raised ''No /Root object'')"
  by (simp add: file_error_def lower_names endswith_names input_names parse_bad)

lemma process_bad:
  "process_file env_example ''in'' ''out'' ''bad.pdf'' w
     = print ''Error processing bad.pdf: No /Root object'' w"
  by (simp add: process_file_def lower_names endswith_names input_names parse_bad error_line_def)

lemma process_notes: "process_file env_example ''in'' ''out'' ''notes.txt'' w = w"
  by (simp add: process_file_def lower_names endswith_names)

lemma process_ok:
  "process_file env_example ''in'' ''out'' ''ok.PDF'' w
     = write_file ''out/ok.json'' ''{summary: Built scalable systems.}'' w"
  by (simp add: process_file_def lower_names endswith_names input_names output_names parse_ok
        env_example_io resume_ok_def)

lemma batch_example:
  "process_files env_example ''in'' ''out'' [''bad.pdf'', ''notes.txt'', ''ok.PDF''] world0
     = write_file ''out/ok.json'' ''{summary: Built scalable systems.}''
         (print ''Error processing bad.pdf: No /Root object'' world0)"
  by (simp add: process_bad process_notes process_ok)

text \<open>
  C3, the claim as stated fails: "full.pdf" is parsed and its output file is opened, the
  write then fails for lack of space. Processing the file raised an error, and the output
  file, absent before, is on disk (empty).
\<close>

theorem partial_file_left:
  "endswith (lower ''full.pdf'') ''.pdf'' \<and>
   file_error env_example ''in'' ''out'' ''full.pdf'' = Some (Raised ''No space left on device'') \<and>
   fs world0 ''out/full.json'' = None \<and>
   fs (process_file env_example ''in'' ''out'' ''full.pdf'' world0) ''out/full.json'' = Some []"
proof -
  obtain r where r: "parse_resume env_example ''in/full.pdf'' = Inr r"
    using parse_full by blast
  show ?thesis
    by (simp add: file_error_def process_file_def lower_names endswith_names input_names
          output_names r env_example_io world0_def print_def write_file_def)
qed


text \<open>
  C3, amended. When processing a file of the batch raises an error, in parsing, in
  opening the output file or in writing it, exactly one line
  "Error processing <file>: <message>" is printed, and the driver goes on with the
  remaining files: the lines printed by a batch are those of its failing files, one each
  and in order. When the error comes from parsing or from opening the output file, no
  file on disk changes. When the write fails after the output file was opened, that file
  is left with what had been written. A path that is the output file of no file of the
  batch is never touched.
\<close>

theorem failure_isolation:
  "process_files E i out (pre @ f # post) w
     = process_files E i out post (process_file E i out f (process_files E i out pre w)) \<and>
   (file_error E i out f = Some e \<longrightarrow>
      stdout (process_file E i out f w) = stdout w @ [error_line f e] \<and>
      error_line f e = ''Error processing '' @ f @ '': '' @ str_of_error e \<and>
      contains (error_line f e) f \<and> contains (error_line f e) (str_of_error e)) \<and>
   (file_error E i out f = None \<longrightarrow> stdout (process_file E i out f w) = stdout w) \<and>
   (endswith (lower f) ''.pdf'' \<and>
    (isl (parse_resume E (path_join i f)) \<or> open_fails E (output_file out f) \<noteq> None) \<longrightarrow>
      file_error E i out f \<noteq> None \<and> fs (process_file E i out f w) = fs w) \<and>
   (endswith (lower f) ''.pdf'' \<and> parse_resume E (path_join i f) = Inr r \<and>
    open_fails E (output_file out f) = None \<and>
    write_fails E (output_file out f) = Some (e', written) \<longrightarrow>
      file_error E i out f = Some e' \<and>
      fs (process_file E i out f w) = (fs w)(output_file out f \<mapsto> written)) \<and>
   stdout (process_files E i out files w)
     = stdout w @ map (\<lambda>f. error_line f (the (file_error E i out f)))
                      (filter (\<lambda>f. file_error E i out f \<noteq> None) files) \<and>
   ((\<forall>g\<in>set files. p \<noteq> output_file out g) \<longrightarrow>
      fs (process_files E i out files w) p = fs w p) \<and>
   (makedirs_fails E out = None \<and> listdir E i = Inr files \<longrightarrow>
      process_resumes E i out w = Inr (process_files E i out files w))"
proof (intro conjI impI)
  show "process_files E i out (pre @ f # post) w
     = process_files E i out post (process_file E i out f (process_files E i out pre w))"
    by (simp add: process_files_append)
next
  assume "file_error E i out f = Some e"
  then show "stdout (process_file E i out f w) = stdout w @ [error_line f e]"
    by (simp add: stdout_process_file)
next
  show "error_line f e = ''Error processing '' @ f @ '': '' @ str_of_error e"
    by (simp add: error_line_def)
next
  show "contains (error_line f e) f" "contains (error_line f e) (str_of_error e)"
    using error_line_contains by blast+
next
  assume "file_error E i out f = None"
  then show "stdout (process_file E i out f w) = stdout w"
    by (simp add: stdout_process_file)
next
  assume a: "endswith (lower f) ''.pdf'' \<and>
    (isl (parse_resume E (path_join i f)) \<or> open_fails E (output_file out f) \<noteq> None)"
  then show "file_error E i out f \<noteq> None"
    by (auto simp: file_error_def isl_def split: sum.splits option.splits)
  from a show "fs (process_file E i out f w) = fs w"
    by (intro fs_process_file_failed) blast
next
  assume a: "endswith (lower f) ''.pdf'' \<and> parse_resume E (path_join i f) = Inr r \<and>
    open_fails E (output_file out f) = None \<and>
    write_fails E (output_file out f) = Some (e', written)"
  then show "file_error E i out f = Some e'"
    by (simp add: file_error_def)
  from a show "fs (process_file E i out f w) = (fs w)(output_file out f \<mapsto> written)"
    by (simp add: process_file_def print_def write_file_def)
next
  show "stdout (process_files E i out files w)
     = stdout w @ map (\<lambda>f. error_line f (the (file_error E i out f)))
                      (filter (\<lambda>f. file_error E i out f \<noteq> None) files)"
    by (rule stdout_process_files)
next
  assume "\<forall>g\<in>set files. p \<noteq> output_file out g"
  then show "fs (process_files E i out files w) p = fs w p"
    by (intro fs_process_files_other) blast
next
  assume "makedirs_fails E out = None \<and> listdir E i = Inr files"
  then show "process_resumes E i out w = Inr (process_files E i out files w)"
    by (simp add: process_resumes_def)
qed

theorem failure_isolation_witness:
  "file_error env_example ''in'' ''out'' ''bad.pdf'' = Some (Raised ''No /Root object'') \<and>
   stdout (process_file env_example ''in'' ''out'' ''bad.pdf'' world0)
     = [''Error processing bad.pdf: No /Root object''] \<and>
   fs (process_file env_example ''in'' ''out'' ''bad.pdf'' world0) = fs world0 \<and>
   file_error env_example ''in'' ''out'' ''ok.PDF'' = None \<and>
   stdout (process_file env_example ''in'' ''out'' ''ok.PDF'' world0) = [] \<and>
   open_fails env_example (output_file ''out'' ''locked.pdf'') = Some (Raised ''Permission denied'') \<and>
   fs (process_file env_example ''in'' ''out'' ''locked.pdf'' world0) = fs world0 \<and>
   write_fails env_example (output_file ''out'' ''full.pdf'')
     = Some (Raised ''No space left on device'', []) \<and>
   fs (process_file env_example ''in'' ''out'' ''full.pdf'' world0)
     = (fs world0)(''out/full.json'' \<mapsto> []) \<and>
   list_all (\<lambda>g. ''out/bad.json'' \<noteq> output_file ''out'' g) [''notes.txt'', ''ok.PDF''] \<and>
   fs (process_files env_example ''in'' ''out'' [''notes.txt'', ''ok.PDF''] world0) ''out/bad.json''
     = None \<and>
   stdout (process_files env_example ''in'' ''out'' [''bad.pdf'', ''notes.txt'', ''ok.PDF''] world0)
     = [''Error processing bad.pdf: No /Root object''] \<and>
   process_resumes env_example ''in'' ''out'' world0
     = Inr (process_files env_example ''in'' ''out'' [''bad.pdf'', ''notes.txt'', ''ok.PDF''] world0)"
proof -
  let ?bad = "Raised ''No /Root object''"
  let ?full = "Raised ''No space left on device''"
  let ?files = "[''bad.pdf'', ''notes.txt'', ''ok.PDF'']"
  obtain r where r: "parse_resume env_example ''in/full.pdf'' = Inr r"
    using parse_full by blast
  note bad = failure_isolation[of env_example "''in''" "''out''" "[]" "''bad.pdf''"
      "[''notes.txt'', ''ok.PDF'']" world0 ?bad r ?full "[]" ?files "''out/other.json''"]
  note ok = failure_isolation[of env_example "''in''" "''out''" "[]" "''ok.PDF''"
      "[]" world0 ?bad r ?full "[]" "[''notes.txt'', ''ok.PDF'']" "''out/bad.json''"]
  note locked = failure_isolation[of env_example "''in''" "''out''" "[]" "''locked.pdf''"
      "[]" world0 ?bad r ?full "[]" ?files "''out/other.json''"]
  note full = failure_isolation[of env_example "''in''" "''out''" "[]" "''full.pdf''"
      "[]" world0 ?bad r ?full "[]" ?files "''out/other.json''"]
  have e_bad: "file_error env_example ''in'' ''out'' ''bad.pdf'' = Some ?bad"
    by (rule file_error_bad)
  have line: "error_line ''bad.pdf'' ?bad = ''Error processing bad.pdf: No /Root object''"
    by (simp add: error_line_def)
  from bad e_bad have "stdout (process_file env_example ''in'' ''out'' ''bad.pdf'' world0)
      = stdout world0 @ [error_line ''bad.pdf'' ?bad]"
    by blast
  then have c1: "stdout (process_file env_example ''in'' ''out'' ''bad.pdf'' world0)
      = [''Error processing bad.pdf: No /Root object'']"
    by (simp add: line world0_def)
  have "endswith (lower ''bad.pdf'') ''.pdf''"
    "isl (parse_resume env_example (path_join ''in'' ''bad.pdf''))"
    by (simp_all add: lower_names endswith_names input_names parse_bad)
  with bad have c2: "fs (process_file env_example ''in'' ''out'' ''bad.pdf'' world0) = fs world0"
    by blast
  have e_ok: "file_error env_example ''in'' ''out'' ''ok.PDF'' = None"
    by (simp add: file_error_def lower_names endswith_names input_names output_names parse_ok
          env_example_io)
  with ok have "stdout (process_file env_example ''in'' ''out'' ''ok.PDF'' world0) = stdout world0"
    by blast
  then have c3: "stdout (process_file env_example ''in'' ''out'' ''ok.PDF'' world0) = []"
    by (simp add: world0_def)
  have o_locked: "open_fails env_example (output_file ''out'' ''locked.pdf'')
      = Some (Raised ''Permission denied'')"
    by (simp add: output_names env_example_io)
  have "endswith (lower ''locked.pdf'') ''.pdf''"
    by (simp add: lower_names endswith_names)
  with locked o_locked
  have c4: "fs (process_file env_example ''in'' ''out'' ''locked.pdf'' world0) = fs world0"
    by auto
  have w_full: "write_fails env_example (output_file ''out'' ''full.pdf'') = Some (?full, [])"
    "open_fails env_example (output_file ''out'' ''full.pdf'') = None"
    "endswith (lower ''full.pdf'') ''.pdf''"
    "parse_resume env_example (path_join ''in'' ''full.pdf'') = Inr r"
    by (simp_all add: output_names env_example_io lower_names endswith_names input_names r)
  with full have "fs (process_file env_example ''in'' ''out'' ''full.pdf'' world0)
      = (fs world0)(output_file ''out'' ''full.pdf'' \<mapsto> [])"
    by blast
  then have c5: "fs (process_file env_example ''in'' ''out'' ''full.pdf'' world0)
      = (fs world0)(''out/full.json'' \<mapsto> [])"
    by (simp add: output_names)
  have others: "list_all (\<lambda>g. ''out/bad.json'' \<noteq> output_file ''out'' g) [''notes.txt'', ''ok.PDF'']"
    by (simp add: output_names)
  then have "\<forall>g\<in>set [''notes.txt'', ''ok.PDF'']. ''out/bad.json'' \<noteq> output_file ''out'' g"
    by (simp only: list_all_iff)
  with ok
  have "fs (process_files env_example ''in'' ''out'' [''notes.txt'', ''ok.PDF''] world0) ''out/bad.json''
      = fs world0 ''out/bad.json''"
    by blast
  then have c6: "fs (process_files env_example ''in'' ''out'' [''notes.txt'', ''ok.PDF''] world0)
      ''out/bad.json'' = None"
    by (simp add: world0_def)
  have c7: "stdout (process_files env_example ''in'' ''out'' ?files world0)
      = [''Error processing bad.pdf: No /Root object'']"
    by (simp only: batch_example) (simp add: print_def write_file_def world0_def)
  have "makedirs_fails env_example ''out'' = None \<and> listdir env_example ''in'' = Inr ?files"
    by (simp add: env_example_io)
  with bad have c8: "process_resumes env_example ''in'' ''out'' world0
      = Inr (process_files env_example ''in'' ''out'' ?files world0)"
    by blast
  show ?thesis
    using e_bad c1 c2 e_ok c3 o_locked c4 w_full(1) c5 others c6 c7 c8 by blast
qed

subsection \<open>The report file\<close>

lemma length_decimal_2: "n < 100 \<Longrightarrow> length (decimal n) \<le> 2"
  by (subst decimal.simps, subst decimal.simps) (simp add: less_mult_imp_div_less)

lemma length_decimal_4: "n < 10000 \<Longrightarrow> length (decimal n) \<le> 4"
  by (subst decimal.simps, subst decimal.simps, subst decimal.simps, subst decimal.simps)
     (simp add: less_mult_imp_div_less div_mult2_eq)

lemma length_decimal_step: "10 \<le> n \<Longrightarrow> length (decimal n) = Suc (length (decimal (n div 10)))"
  by (subst decimal.simps) simp

lemma length_decimal_ge_4:
  assumes "1000 \<le> n"
  shows "4 \<le> length (decimal n)"
proof -
  have a: "10 \<le> n" "10 \<le> n div 10" "10 \<le> n div 10 div 10"
    using assms by arith+
  have "Suc 0 \<le> length (decimal (n div 10 div 10 div 10))"
    by (subst decimal.simps) simp
  then show ?thesis
    by (simp only: length_decimal_step[OF a(1)] length_decimal_step[OF a(2)]
          length_decimal_step[OF a(3)])
qed

lemma length_zero_padded: "length (decimal n) \<le> w \<Longrightarrow> length (zero_padded w n) = w"
  by (simp add: zero_padded_def)

lemma is_digit_digit: "d < 10 \<Longrightarrow> is_digit (digit d)"
  by (simp add: is_digit_def digit_def)

lemma digits_decimal: "list_all is_digit (decimal n)"
proof (induction n rule: decimal.induct)
  case (1 n)
  show ?case
  proof (cases "n < 10")
    case True
    then show ?thesis by (subst decimal.simps) (simp add: is_digit_digit)
  next
    case False
    then show ?thesis using 1 by (subst decimal.simps) (simp add: is_digit_digit)
  qed
qed

lemma digits_zero_padded: "list_all is_digit (zero_padded w n)"
proof -
  have "is_digit CHR ''0''" by (simp add: is_digit_def)
  then have "list_all is_digit (replicate (w - length (decimal n)) CHR ''0'')"
    by (simp add: list_all_iff)
  then show ?thesis
    by (simp add: zero_padded_def digits_decimal)
qed

lemma strftime_Ymd_shape:
  assumes "1000 \<le> year t" "year t < 10000" "month t < 100" "day t < 100"
  shows "length (strftime_Ymd t) = 8 \<and> list_all is_digit (strftime_Ymd t)"
proof -
  have "length (decimal (year t)) = 4"
    using length_decimal_4[OF assms(2)] length_decimal_ge_4[OF assms(1)] by simp
  then show ?thesis
    using assms
    by (simp add: strftime_Ymd_def length_zero_padded length_decimal_2 digits_zero_padded
          digits_decimal)
qed

lemma strftime_example: "strftime_Ymd (clock_example 0) = ''20261103''"
  by code_simp

lemma str_datetime_example: "str_datetime (clock_example (Suc 0)) = ''2026-11-03 09:05:01.000250''"
  by code_simp

lemma strftime_short_year:
  "strftime_Ymd \<lparr>year = 999, month = 1, day = 2, hour = 3, minute = 4, second = 5,
                   microsecond = 6\<rparr> = ''9990102''"
  by code_simp

lemma report_path_example: "path_join ''logs'' ''report_20261103.log'' = ''logs/report_20261103.log''"
  by code_simp

lemma report_path_world0:
  "path_join ''logs'' (''report_'' @ strftime_Ymd (clock world0 (ticks world0)) @ ''.log'')
     = ''logs/report_20261103.log''"
  by (simp add: world0_def strftime_example report_path_example)

lemma save_report_example_open:
  "open_fails env_example
     (path_join ''logs'' (''report_'' @ strftime_Ymd (clock world0 (ticks world0)) @ ''.log''))
   = None"
  by (simp only: report_path_world0) (simp add: env_example_io)

lemma save_report_example_write:
  "write_fails env_example
     (path_join ''logs'' (''report_'' @ strftime_Ymd (clock world0 (ticks world0)) @ ''.log''))
   = None"
  by (simp only: report_path_world0) (simp add: env_example_io)

text \<open>
  C4, the claim as stated fails: in a run of the driver where "bad.pdf" raises an error,
  the error line goes to the standard output, without a time stamp, and the only file on
  disk afterwards is the output of "ok.PDF": no report file is written.
\<close>

theorem errors_not_in_report:
  "process_resumes env_example ''in'' ''out'' world0
     = Inr (write_file ''out/ok.json'' ''{summary: Built scalable systems.}''
             (print ''Error processing bad.pdf: No /Root object'' world0)) \<and>
   file_error env_example ''in'' ''out'' ''bad.pdf'' = Some (Raised ''No /Root object'') \<and>
   stdout (write_file ''out/ok.json'' ''{summary: Built scalable systems.}''
             (print ''Error processing bad.pdf: No /Root object'' world0))
     = [''Error processing bad.pdf: No /Root object''] \<and>
   dom (fs (write_file ''out/ok.json'' ''{summary: Built scalable systems.}''
             (print ''Error processing bad.pdf: No /Root object'' world0)))
     = {''out/ok.json''}"
  by (simp add: process_resumes_def env_example_io process_bad process_notes process_ok
        file_error_bad)
     (simp add: write_file_def print_def world0_def)

text \<open>
  C4, amended. The report file of a call of \<^verbatim>\<open>save_report\<close> is "report_<date>.log" in the
  report directory, the date being the first reading of the clock as year, month and day
  (eight digits for the years 1000 to 9999). When this file can be opened for appending
  and written, the call appends one line to it and keeps what the file held: the line is
  the second reading of the clock in brackets, followed by
  "Error processing <filename>: <error>" when both arguments are given and not empty, and
  by "Processing started" otherwise. When the file cannot be opened, the call raises the
  error and no file changes. When the write fails, the call raises the error and the file
  holds, after its former content, what had been written of the line. The driver does
  not call \<^verbatim>\<open>save_report\<close>: a run leaves every file whose name ends in ".log" as it was,
  never reads the clock, and reports the errors of the files as lines
  "Error processing <file>: <message>" on the standard output; it writes no line for the
  start of the run.
\<close>

theorem save_report_appends:
  "(open_fails E (path_join report_dir (''report_'' @ strftime_Ymd (clock w (ticks w)) @ ''.log''))
      = None \<and>
    write_fails E (path_join report_dir (''report_'' @ strftime_Ymd (clock w (ticks w)) @ ''.log''))
      = None \<longrightarrow>
    (\<exists>w'. save_report E report_dir filename error w = (None, w') \<and>
       fs w' = (fs w)
         (path_join report_dir (''report_'' @ strftime_Ymd (clock w (ticks w)) @ ''.log'') \<mapsto>
            (case fs w (path_join report_dir
                          (''report_'' @ strftime_Ymd (clock w (ticks w)) @ ''.log'')) of
               None \<Rightarrow> [] | Some old \<Rightarrow> old)
            @ ''['' @ str_datetime (clock w (Suc (ticks w))) @ ''] ''
            @ (if truthy filename \<and> truthy error
               then ''Error processing '' @ str_of filename @ '': '' @ str_of error
               else ''Processing started'')
            @ [nl]) \<and>
       stdout w' = stdout w)) \<and>
   (open_fails E (path_join report_dir (''report_'' @ strftime_Ymd (clock w (ticks w)) @ ''.log''))
      = Some e \<longrightarrow>
    (\<exists>w'. save_report E report_dir filename error w = (Some e, w') \<and>
       fs w' = fs w \<and> stdout w' = stdout w)) \<and>
   (open_fails E (path_join report_dir (''report_'' @ strftime_Ymd (clock w (ticks w)) @ ''.log''))
      = None \<and>
    write_fails E (path_join report_dir (''report_'' @ strftime_Ymd (clock w (ticks w)) @ ''.log''))
      = Some (e, written) \<longrightarrow>
    (\<exists>w'. save_report E report_dir filename error w = (Some e, w') \<and>
       fs w' = (fs w)
         (path_join report_dir (''report_'' @ strftime_Ymd (clock w (ticks w)) @ ''.log'') \<mapsto>
            (case fs w (path_join report_dir
                          (''report_'' @ strftime_Ymd (clock w (ticks w)) @ ''.log'')) of
               None \<Rightarrow> [] | Some old \<Rightarrow> old)
            @ written) \<and>
       stdout w' = stdout w)) \<and>
   (1000 \<le> year t \<and> year t < 10000 \<and> month t < 100 \<and> day t < 100 \<longrightarrow>
      length (strftime_Ymd t) = 8 \<and> list_all is_digit (strftime_Ymd t)) \<and>
   (endswith p ''.log'' \<longrightarrow> fs (process_files E' i out files v) p = fs v p) \<and>
   ticks (process_files E' i out files v) = ticks v \<and>
   stdout (process_files E' i out files v)
     = stdout v @ map (\<lambda>f. ''Error processing '' @ f @ '': ''
                            @ str_of_error (the (file_error E' i out f)))
                      (filter (\<lambda>f. file_error E' i out f \<noteq> None) files) \<and>
   (process_resumes E' i out v = Inr v' \<longrightarrow>
      (\<exists>files. listdir E' i = Inr files \<and> v' = process_files E' i out files v))"
proof (intro conjI impI)
  assume "open_fails E (path_join report_dir (''report_'' @ strftime_Ymd (clock w (ticks w)) @ ''.log''))
      = None \<and>
    write_fails E (path_join report_dir (''report_'' @ strftime_Ymd (clock w (ticks w)) @ ''.log''))
      = None"
  then show "\<exists>w'. save_report E report_dir filename error w = (None, w') \<and>
       fs w' = (fs w)
         (path_join report_dir (''report_'' @ strftime_Ymd (clock w (ticks w)) @ ''.log'') \<mapsto>
            (case fs w (path_join report_dir
                          (''report_'' @ strftime_Ymd (clock w (ticks w)) @ ''.log'')) of
               None \<Rightarrow> [] | Some old \<Rightarrow> old)
            @ ''['' @ str_datetime (clock w (Suc (ticks w))) @ ''] ''
            @ (if truthy filename \<and> truthy error
               then ''Error processing '' @ str_of filename @ '': '' @ str_of error
               else ''Processing started'')
            @ [nl]) \<and>
       stdout w' = stdout w"
    by (simp add: save_report_def now_def append_file_def Let_def)
next
  assume "open_fails E (path_join report_dir (''report_'' @ strftime_Ymd (clock w (ticks w)) @ ''.log''))
      = Some e"
  then show "\<exists>w'. save_report E report_dir filename error w = (Some e, w') \<and>
       fs w' = fs w \<and> stdout w' = stdout w"
    by (simp add: save_report_def now_def Let_def)
next
  assume "open_fails E (path_join report_dir (''report_'' @ strftime_Ymd (clock w (ticks w)) @ ''.log''))
      = None \<and>
    write_fails E (path_join report_dir (''report_'' @ strftime_Ymd (clock w (ticks w)) @ ''.log''))
      = Some (e, written)"
  then show "\<exists>w'. save_report E report_dir filename error w = (Some e, w') \<and>
       fs w' = (fs w)
         (path_join report_dir (''report_'' @ strftime_Ymd (clock w (ticks w)) @ ''.log'') \<mapsto>
            (case fs w (path_join report_dir
                          (''report_'' @ strftime_Ymd (clock w (ticks w)) @ ''.log'')) of
               None \<Rightarrow> [] | Some old \<Rightarrow> old)
            @ written) \<and>
       stdout w' = stdout w"
    by (simp add: save_report_def now_def append_file_def Let_def)
next
  assume "1000 \<le> year t \<and> year t < 10000 \<and> month t < 100 \<and> day t < 100"
  then show "length (strftime_Ymd t) = 8" "list_all is_digit (strftime_Ymd t)"
    using strftime_Ymd_shape by blast+
next
  assume "endswith p ''.log''"
  then show "fs (process_files E' i out files v) p = fs v p"
    by (intro fs_process_files_other log_not_output)
next
  show "ticks (process_files E' i out files v) = ticks v"
    by (rule ticks_process_files)
next
  show "stdout (process_files E' i out files v)
     = stdout v @ map (\<lambda>f. ''Error processing '' @ f @ '': ''
                            @ str_of_error (the (file_error E' i out f)))
                      (filter (\<lambda>f. file_error E' i out f \<noteq> None) files)"
    by (simp add: stdout_process_files error_line_def)
next
  assume "process_resumes E' i out v = Inr v'"
  then show "\<exists>files. listdir E' i = Inr files \<and> v' = process_files E' i out files v"
    by (auto simp: process_resumes_def split: option.splits sum.splits)
qed

theorem save_report_appends_witness:
  "open_fails env_example
     (path_join ''logs'' (''report_'' @ strftime_Ymd (clock world0 (ticks world0)) @ ''.log''))
     = None \<and>
   write_fails env_example
     (path_join ''logs'' (''report_'' @ strftime_Ymd (clock world0 (ticks world0)) @ ''.log''))
     = None \<and>
   fst (save_report env_example ''logs'' (Some ''bad.pdf'') (Some ''boom'') world0) = None \<and>
   fs (snd (save_report env_example ''logs'' (Some ''bad.pdf'') (Some ''boom'') world0))
      ''logs/report_20261103.log''
     = Some (''[2026-11-03 09:05:01.000250] Error processing bad.pdf: boom'' @ [nl]) \<and>
   1000 \<le> year (clock_example 0) \<and> year (clock_example 0) < 10000 \<and>
   month (clock_example 0) < 100 \<and> day (clock_example 0) < 100 \<and>
   length (strftime_Ymd (clock_example 0)) = 8 \<and>
   endswith ''logs/report_20261103.log'' ''.log'' \<and>
   fs (process_files env_example ''in'' ''out'' [''bad.pdf'', ''notes.txt'', ''ok.PDF''] world0)
      ''logs/report_20261103.log'' = None \<and>
   process_resumes env_example ''in'' ''out'' world0
     = Inr (process_files env_example ''in'' ''out'' [''bad.pdf'', ''notes.txt'', ''ok.PDF''] world0) \<and>
   open_fails env_readonly
     (path_join ''logs'' (''report_'' @ strftime_Ymd (clock world0 (ticks world0)) @ ''.log''))
     = Some (Raised ''Read-only file system'') \<and>
   fst (save_report env_readonly ''logs'' None None world0)
     = Some (Raised ''Read-only file system'') \<and>
   fs (snd (save_report env_readonly ''logs'' None None world0)) = fs world0 \<and>
   open_fails env_full
     (path_join ''logs'' (''report_'' @ strftime_Ymd (clock world0 (ticks world0)) @ ''.log''))
     = None \<and>
   write_fails env_full
     (path_join ''logs'' (''report_'' @ strftime_Ymd (clock world0 (ticks world0)) @ ''.log''))
     = Some (Raised ''No space left on device'', ''[2026-11'') \<and>
   fst (save_report env_full ''logs'' None None world0)
     = Some (Raised ''No space left on device'') \<and>
   fs (snd (save_report env_full ''logs'' None None world0)) ''logs/report_20261103.log''
     = Some ''[2026-11''"
proof -
  note R = save_report_appends[of env_readonly "''logs''" world0 None None
      "Raised ''Read-only file system''" "[]" "clock_example 0" "''logs/report_20261103.log''"
      env_example "''in''" "''out''" "[]" world0 world0]
  have ro: "open_fails env_readonly
     (path_join ''logs'' (''report_'' @ strftime_Ymd (clock world0 (ticks world0)) @ ''.log''))
     = Some (Raised ''Read-only file system'')"
    by (simp add: env_readonly_def)
  with R obtain wr where
    "save_report env_readonly ''logs'' None None world0 = (Some (Raised ''Read-only file system''), wr)"
    "fs wr = fs world0"
    by blast
  then have refused: "fst (save_report env_readonly ''logs'' None None world0)
        = Some (Raised ''Read-only file system'')"
      "fs (snd (save_report env_readonly ''logs'' None None world0)) = fs world0"
    by simp_all
  note F = save_report_appends[of env_full "''logs''" world0 None None
      "Raised ''No space left on device''" "''[2026-11''"
      "clock_example 0" "''logs/report_20261103.log''"
      env_example "''in''" "''out''" "[]" world0 world0]
  have fo: "open_fails env_full
     (path_join ''logs'' (''report_'' @ strftime_Ymd (clock world0 (ticks world0)) @ ''.log''))
     = None"
    by (simp only: report_path_world0) (simp add: env_full_def env_example_io)
  have fw: "write_fails env_full
     (path_join ''logs'' (''report_'' @ strftime_Ymd (clock world0 (ticks world0)) @ ''.log''))
     = Some (Raised ''No space left on device'', ''[2026-11'')"
    by (simp add: env_full_def)
  from F fo fw obtain wf where
    wf: "save_report env_full ''logs'' None None world0 = (Some (Raised ''No space left on device''), wf)"
    and ff: "fs wf = (fs world0)
         (path_join ''logs'' (''report_'' @ strftime_Ymd (clock world0 (ticks world0)) @ ''.log'') \<mapsto>
            (case fs world0 (path_join ''logs''
                          (''report_'' @ strftime_Ymd (clock world0 (ticks world0)) @ ''.log'')) of
               None \<Rightarrow> [] | Some old \<Rightarrow> old)
            @ ''[2026-11'')"
    by blast
  have full: "fst (save_report env_full ''logs'' None None world0)
        = Some (Raised ''No space left on device'')"
      "fs (snd (save_report env_full ''logs'' None None world0)) ''logs/report_20261103.log''
        = Some ''[2026-11''"
    by (simp_all only: wf ff report_path_world0 fst_conv snd_conv) (simp add: world0_def)
  note T = save_report_appends[of env_example "''logs''" world0 "Some ''bad.pdf''" "Some ''boom''"
      "Raised ''Permission denied''" "[]" "clock_example 0" "''logs/report_20261103.log''"
      env_example "''in''" "''out''"
      "[''bad.pdf'', ''notes.txt'', ''ok.PDF'']" world0
      "process_files env_example ''in'' ''out'' [''bad.pdf'', ''notes.txt'', ''ok.PDF''] world0"]
  have o: "open_fails env_example
     (path_join ''logs'' (''report_'' @ strftime_Ymd (clock world0 (ticks world0)) @ ''.log''))
     = None"
    by (rule save_report_example_open)
  have ow: "write_fails env_example
     (path_join ''logs'' (''report_'' @ strftime_Ymd (clock world0 (ticks world0)) @ ''.log''))
     = None"
    by (rule save_report_example_write)
  from T o ow obtain w' where
    w': "save_report env_example ''logs'' (Some ''bad.pdf'') (Some ''boom'') world0 = (None, w')"
    and f: "fs w' = (fs world0)
         (path_join ''logs'' (''report_'' @ strftime_Ymd (clock world0 (ticks world0)) @ ''.log'') \<mapsto>
            (case fs world0 (path_join ''logs''
                          (''report_'' @ strftime_Ymd (clock world0 (ticks world0)) @ ''.log'')) of
               None \<Rightarrow> [] | Some old \<Rightarrow> old)
            @ ''['' @ str_datetime (clock world0 (Suc (ticks world0))) @ ''] ''
            @ (if truthy (Some ''bad.pdf'') \<and> truthy (Some ''boom'')
               then ''Error processing '' @ str_of (Some ''bad.pdf'') @ '': '' @ str_of (Some ''boom'')
               else ''Processing started'')
            @ [nl])"
    by blast
  have line: "fst (save_report env_example ''logs'' (Some ''bad.pdf'') (Some ''boom'') world0) = None"
      "fs (snd (save_report env_example ''logs'' (Some ''bad.pdf'') (Some ''boom'') world0))
         ''logs/report_20261103.log''
       = Some (''[2026-11-03 09:05:01.000250] Error processing bad.pdf: boom'' @ [nl])"
    by (simp_all only: w' f report_path_world0 fst_conv snd_conv)
       (simp add: world0_def str_datetime_example truthy_def str_of_def)
  have d: "1000 \<le> year (clock_example 0) \<and> year (clock_example 0) < 10000 \<and>
      month (clock_example 0) < 100 \<and> day (clock_example 0) < 100"
    by (simp add: clock_example_def)
  with T have len: "length (strftime_Ymd (clock_example 0)) = 8"
    by blast
  have e: "endswith ''logs/report_20261103.log'' ''.log''"
    by code_simp
  with T have untouched:
    "fs (process_files env_example ''in'' ''out'' [''bad.pdf'', ''notes.txt'', ''ok.PDF''] world0)
      ''logs/report_20261103.log'' = fs world0 ''logs/report_20261103.log''"
    by blast
  have run: "process_resumes env_example ''in'' ''out'' world0
     = Inr (process_files env_example ''in'' ''out'' [''bad.pdf'', ''notes.txt'', ''ok.PDF''] world0)"
    by (simp add: process_resumes_def env_example_io)
  have none: "fs world0 ''logs/report_20261103.log'' = None"
    by (simp add: world0_def)
  show ?thesis
    using o ow line d len e untouched none run ro refused fo fw full by simp
qed

end
